theory Spec2Isabelle
  imports Main "HOL-Library.AList"
begin

section \<open>Python strings\<close>

text \<open>
  Strings are ASCII strings: a \<open>char\<close> is one code point below 128. (Python's
  \<^verbatim>\<open>str\<close> methods follow the Unicode tables beyond ASCII; the functions below are
  Python's on ASCII text, and treat a character from 128 on as neither a letter nor white
  space.) The character classes are tables, so that the kernel can evaluate them.
\<close>

definition ascii_lowercase :: string where
  "ascii_lowercase = ''abcdefghijklmnopqrstuvwxyz''"

definition ascii_uppercase :: string where
  "ascii_uppercase = ''ABCDEFGHIJKLMNOPQRSTUVWXYZ''"

definition digits :: string where
  "digits = ''0123456789''"

text \<open>
  \<^verbatim>\<open>str.isspace\<close> on ASCII: tab, line feed, vertical tab, form feed, carriage return,
  the separators 0x1C to 0x1F, and the space.
\<close>

definition whitespace :: string where
  "whitespace = [CHR 0x09, CHR 0x0A, CHR 0x0B, CHR 0x0C, CHR 0x0D,
                 CHR 0x1C, CHR 0x1D, CHR 0x1E, CHR 0x1F, CHR 0x20]"

definition is_space :: "char \<Rightarrow> bool" where
  "is_space c = (c \<in> set whitespace)"

definition is_alpha :: "char \<Rightarrow> bool" where
  "is_alpha c = (c \<in> set ascii_lowercase \<or> c \<in> set ascii_uppercase)"

definition is_digit :: "char \<Rightarrow> bool" where
  "is_digit c = (c \<in> set digits)"

definition upper_char :: "char \<Rightarrow> char" where
  "upper_char c = (case map_of (zip ascii_lowercase ascii_uppercase) c of
                     Some u \<Rightarrow> u | None \<Rightarrow> c)"

definition lower_char :: "char \<Rightarrow> char" where
  "lower_char c = (case map_of (zip ascii_uppercase ascii_lowercase) c of
                     Some l \<Rightarrow> l | None \<Rightarrow> c)"

definition upper :: "string \<Rightarrow> string" where
  "upper s = map upper_char s"

definition lower :: "string \<Rightarrow> string" where
  "lower s = map lower_char s"

text \<open>\<^verbatim>\<open>s.isalpha()\<close>: at least one character, and all of them letters.\<close>

definition isalpha :: "string \<Rightarrow> bool" where
  "isalpha s = (s \<noteq> [] \<and> list_all is_alpha s)"

text \<open>\<^verbatim>\<open>s.capitalize()\<close>: the first character in upper case, the rest in lower case.\<close>

fun capitalize :: "string \<Rightarrow> string" where
  "capitalize [] = []"
| "capitalize (c # cs) = upper_char c # lower cs"

definition lstrip :: "string \<Rightarrow> string" where
  "lstrip s = dropWhile is_space s"

definition rstrip :: "string \<Rightarrow> string" where
  "rstrip s = rev (dropWhile is_space (rev s))"

definition strip :: "string \<Rightarrow> string" where
  "strip s = rstrip (lstrip s)"

text \<open>\<^verbatim>\<open>s.lstrip(chars)\<close>: drops the leading characters that occur in \<open>chars\<close>.\<close>

definition lstrip_chars :: "string \<Rightarrow> string \<Rightarrow> string" where
  "lstrip_chars chars s = dropWhile (\<lambda>c. c \<in> set chars) s"

definition startswith :: "string \<Rightarrow> string \<Rightarrow> bool" where
  "startswith s p = (take (length p) s = p)"

definition endswith :: "string \<Rightarrow> string \<Rightarrow> bool" where
  "endswith s p = (length p \<le> length s \<and> drop (length s - length p) s = p)"

text \<open>\<^verbatim>\<open>sub in s\<close> on strings.\<close>

fun contains :: "string \<Rightarrow> string \<Rightarrow> bool" where
  "contains [] sub = (sub = [])"
| "contains (c # cs) sub = (startswith (c # cs) sub \<or> contains cs sub)"

text \<open>\<^verbatim>\<open>sep.join(xs)\<close>\<close>

fun join :: "string \<Rightarrow> string list \<Rightarrow> string" where
  "join sep [] = []"
| "join sep [x] = x"
| "join sep (x # y # ys) = x @ sep @ join sep (y # ys)"

text \<open>
  \<^verbatim>\<open>s.split()\<close> without arguments: the maximal runs of characters that are not white
  space. \<open>cur\<close> is the run being read, reversed.
\<close>

fun split_acc :: "string \<Rightarrow> string \<Rightarrow> string list" where
  "split_acc cur [] = (if cur = [] then [] else [rev cur])"
| "split_acc cur (c # cs) =
     (if is_space c then (if cur = [] then split_acc [] cs else rev cur # split_acc [] cs)
      else split_acc (c # cur) cs)"

definition split :: "string \<Rightarrow> string list" where
  "split s = split_acc [] s"

text \<open>\<^verbatim>\<open>s.split(sep)\<close> for a separator of one character.\<close>

fun split_on :: "char \<Rightarrow> string \<Rightarrow> string list" where
  "split_on sep [] = [[]]"
| "split_on sep (c # cs) =
     (if c = sep then [] # split_on sep cs
      else (case split_on sep cs of [] \<Rightarrow> [[c]] | w # ws \<Rightarrow> (c # w) # ws))"

text \<open>
  \<^verbatim>\<open>s.splitlines()\<close>: the line boundaries on ASCII are line feed, carriage return (with a
  following line feed taken as one boundary), vertical tab, form feed and 0x1C to 0x1E; a
  final boundary opens no further line. \<open>cur\<close> is the line being read, reversed.
\<close>

definition is_linebreak :: "char \<Rightarrow> bool" where
  "is_linebreak c = (c \<in> set [CHR 0x0A, CHR 0x0D, CHR 0x0B, CHR 0x0C,
                               CHR 0x1C, CHR 0x1D, CHR 0x1E])"

fun splitlines_acc :: "string \<Rightarrow> string \<Rightarrow> string list" where
  "splitlines_acc cur [] = (if cur = [] then [] else [rev cur])"
| "splitlines_acc cur [c] = (if is_linebreak c then [rev cur] else [rev (c # cur)])"
| "splitlines_acc cur (c # d # cs) =
     (if c = CHR 0x0D \<and> d = CHR 0x0A then rev cur # splitlines_acc [] cs
      else if is_linebreak c then rev cur # splitlines_acc [] (d # cs)
      else splitlines_acc (c # cur) (d # cs))"

definition splitlines :: "string \<Rightarrow> string list" where
  "splitlines s = splitlines_acc [] s"

text \<open>\<^verbatim>\<open>str(n)\<close> for a natural number: its decimal digits.\<close>

definition digit_char :: "nat \<Rightarrow> char" where
  "digit_char d = digits ! d"

fun str_nat :: "nat \<Rightarrow> string" where
  "str_nat n = (if n < 10 then [digit_char n]
                else str_nat (n div 10) @ [digit_char (n mod 10)])"

declare str_nat.simps [simp del]

text \<open>
  \<^verbatim>\<open>int(s)\<close> on a string: white space around, an optional sign, then one or more
  decimal digits; anything else raises \<^verbatim>\<open>ValueError\<close> (\<open>None\<close>). (Python also takes
  single underscores between digits; the one caller splits on the underscore first.)
\<close>

definition digit_value :: "char \<Rightarrow> nat" where
  "digit_value c = (case map_of (zip digits [0 ..< 10]) c of Some d \<Rightarrow> d | None \<Rightarrow> 0)"

definition digits_value :: "string \<Rightarrow> nat" where
  "digits_value ds = foldl (\<lambda>acc c. 10 * acc + digit_value c) 0 ds"

definition py_int :: "string \<Rightarrow> int option" where
  "py_int s =
     (let t = strip s;
          (neg, ds) = (case t of
                         c # r \<Rightarrow> if c = CHR ''-'' then (True, r)
                                  else if c = CHR ''+'' then (False, r) else (False, t)
                       | [] \<Rightarrow> (False, t))
      in if ds \<noteq> [] \<and> list_all is_digit ds
         then Some (if neg then - int (digits_value ds) else int (digits_value ds))
         else None)"

section \<open>Retry/fallback executor (app/agents/base.py)\<close>

text \<open>
  The three exception classes of \<^verbatim>\<open>app/agents/base.py\<close>, the built-in exceptions
  that the modelled code can raise (\<^verbatim>\<open>IndexError\<close> of an out-of-range list read,
  \<^verbatim>\<open>AttributeError\<close> of a method the object does not have, \<^verbatim>\<open>TypeError\<close>,
  \<^verbatim>\<open>ValueError\<close>), and any other Python \<^verbatim>\<open>Exception\<close>. Each carries its message
  (\<^verbatim>\<open>str(e)\<close>); the messages of the built-in exceptions are shortened.
\<close>

datatype exn =
    TransientAgentError string
  | PermanentAgentError string
  | FallbackExhaustedError string
  | IndexError string
  | AttributeError string
  | TypeError string
  | ValueError string
  | OtherException string

fun str_exn :: "exn \<Rightarrow> string" where
  "str_exn (TransientAgentError m) = m"
| "str_exn (PermanentAgentError m) = m"
| "str_exn (FallbackExhaustedError m) = m"
| "str_exn (IndexError m) = m"
| "str_exn (AttributeError m) = m"
| "str_exn (TypeError m) = m"
| "str_exn (ValueError m) = m"
| "str_exn (OtherException m) = m"

text \<open>
  \<^verbatim>\<open>retryable = isinstance(e, TransientAgentError) or not isinstance(e, PermanentAgentError)\<close>
\<close>

fun is_transient :: "exn \<Rightarrow> bool" where
  "is_transient (TransientAgentError m) = True"
| "is_transient e = False"

fun is_permanent :: "exn \<Rightarrow> bool" where
  "is_permanent (PermanentAgentError m) = True"
| "is_permanent e = False"

definition retryable :: "exn \<Rightarrow> bool" where
  "retryable e = (is_transient e \<or> \<not> is_permanent e)"

text \<open>
  \<^verbatim>\<open>BaseAgent.__init__\<close>: the fields of an agent. \<^verbatim>\<open>process\<close> and
  \<^verbatim>\<open>fallback_process\<close> are the methods a concrete agent supplies; they are parameters
  of \<open>run_with_retry\<close> below.
\<close>

record agent =
  agent_no :: nat
  name :: string
  max_retries :: nat
  retry_delays :: "nat list"

definition BaseAgent_init :: "nat \<Rightarrow> string \<Rightarrow> agent" where
  "BaseAgent_init no nm =
     \<lparr>agent_no = no, name = nm, max_retries = 4, retry_delays = [1, 2, 4, 8]\<rparr>"

text \<open>
  What one invocation does to the outside world, in order: a call of the stage's work
  (with the 0-based attempt index), a RETRIED event handed to the checkpointer (its
  payload: attempt number and error text, or the fallback marker with the number of
  primary attempts and the last error's text), a suspension for the backoff delay, and the
  call of the fallback. A failure of \<^verbatim>\<open>save_event\<close> is swallowed by the source, so the
  effect stands for the attempt to save.
\<close>

datatype effect =
    Process_call nat
  | Retried_event nat string
  | Fallback_event nat string
  | Sleep nat
  | Fallback_call

text \<open>
  The \<^verbatim>\<open>metrics\<close> entry attached to a returned output (\<^verbatim>\<open>duration_ms\<close> is wall-clock
  time and is left out). \<^verbatim>\<open>retries\<close> is \<^verbatim>\<open>attempts - 1\<close> over Python's integers.
\<close>

record metrics =
  attempts :: nat
  retries :: int
  fallback_used :: bool

datatype 'o outcome =
    Returned 'o metrics
  | Raised exn

text \<open>
  The \<^verbatim>\<open>for attempt in range(self.max_retries)\<close> loop, as a recursion over the attempt
  indices still to run. It ends in one of three ways: the work succeeded (\<open>Inr\<close>), the
  loop was left by \<^verbatim>\<open>break\<close> or ran out (\<open>Inl\<close> with \<open>last_error\<close> and
  \<open>attempts\<close>), or the handler itself raised because \<^verbatim>\<open>retry_delays[attempt]\<close> is out
  of range. The stage's work may answer differently at each call, so it is a function of
  the attempt index.
\<close>

datatype 'o loop_exit =
    Succeeded 'o metrics
  | Left_loop "exn option" nat
  | Handler_raised exn

fun retry_loop ::
  "agent \<Rightarrow> (nat \<Rightarrow> exn + 'o) \<Rightarrow> nat list \<Rightarrow> exn option \<Rightarrow> nat \<Rightarrow> effect list
     \<Rightarrow> 'o loop_exit \<times> effect list" where
  "retry_loop ag process [] last_error atts tr = (Left_loop last_error atts, tr)"
| "retry_loop ag process (attempt # rest) last_error atts tr =
     (let atts' = attempt + 1 in
      case process attempt of
        Inr result \<Rightarrow>
          (Succeeded result
             \<lparr>attempts = atts', retries = int atts' - 1, fallback_used = False\<rparr>,
           tr @ [Process_call attempt])
      | Inl e \<Rightarrow>
          if attempt + 1 < max_retries ag \<and> retryable e then
            (if attempt < length (retry_delays ag) then
               retry_loop ag process rest (Some e) atts'
                 (tr @ [Process_call attempt, Retried_event atts' (str_exn e),
                        Sleep (retry_delays ag ! attempt)])
             else (Handler_raised (IndexError ''list index out of range''),
                   tr @ [Process_call attempt]))
          else (Left_loop (Some e) atts', tr @ [Process_call attempt]))"

text \<open>
  \<^verbatim>\<open>run_with_retry\<close>: the loop, then the fallback once. The fallback gets the last
  error (\<^verbatim>\<open>None\<close> when the loop never ran) and returns an output, \<^verbatim>\<open>None\<close>
  (the default implementation), or raises.
\<close>

definition run_with_retry ::
  "agent \<Rightarrow> (nat \<Rightarrow> exn + 'o) \<Rightarrow> (exn option \<Rightarrow> exn + 'o option)
     \<Rightarrow> 'o outcome \<times> effect list" where
  "run_with_retry ag process fallback_process =
     (case retry_loop ag process [0 ..< max_retries ag] None 0 [] of
        (Succeeded result m, tr) \<Rightarrow> (Returned result m, tr)
      | (Handler_raised e, tr) \<Rightarrow> (Raised e, tr)
      | (Left_loop last_error atts, tr) \<Rightarrow>
          (case fallback_process last_error of
             Inl fe \<Rightarrow> (Raised (FallbackExhaustedError (str_exn fe)), tr @ [Fallback_call])
           | Inr (Some fb) \<Rightarrow>
               (Returned fb \<lparr>attempts = atts, retries = int atts - 1, fallback_used = True\<rparr>,
                tr @ [Fallback_call,
                      Fallback_event atts (case last_error of None \<Rightarrow> ''None''
                                           | Some e \<Rightarrow> str_exn e)])
           | Inr None \<Rightarrow>
               (case last_error of
                  Some e \<Rightarrow> (Raised e, tr @ [Fallback_call])
                | None \<Rightarrow>
                    (Raised (OtherException (''Agent '' @ str_nat (agent_no ag)
                                             @ '' failed after all retries'')),
                     tr @ [Fallback_call]))))"

text \<open>The calls of the stage's work and of its fallback, in the order they happen.\<close>

fun is_call :: "effect \<Rightarrow> bool" where
  "is_call (Process_call i) = True"
| "is_call Fallback_call = True"
| "is_call e = False"

definition calls :: "'o outcome \<times> effect list \<Rightarrow> effect list" where
  "calls r = filter is_call (snd r)"

section \<open>Checkpoint store and run status (app/services/checkpointer.py)\<close>

text \<open>
  A row of the \<^verbatim>\<open>checkpoints\<close> table (app/services/models.py). The table is the list
  of its rows in insertion order; \<open>id\<close> is the autoincrement primary key.
\<close>

record 's checkpoint =
  cp_id :: nat
  cp_run_id :: string
  cp_node_key :: string
  cp_state_json :: 's
  cp_state_hash :: string
  cp_tenant_id :: string

text \<open>The next autoincrement key: one more than the largest key in the table.\<close>

definition next_id :: "'s checkpoint list \<Rightarrow> nat" where
  "next_id rows = Suc (foldr max (map cp_id rows) 0)"

text \<open>
  \<^verbatim>\<open>PostgresCheckpointer.save_checkpoint\<close>. The canonical serialisation
  \<^verbatim>\<open>json.dumps(state, sort_keys=True).encode("utf-8")\<close> and the digest
  \<^verbatim>\<open>hashlib.sha256(...).hexdigest()\<close> are library functions and enter as the
  parameters \<open>dumps\<close> and \<open>sha256\<close>. The query
  \<^verbatim>\<open>filter(run_id == ..., node_key == ..., state_hash == ...).first()\<close> is \<open>find\<close>.
  The result is the returned id (the source returns its decimal rendering \<^verbatim>\<open>str(id)\<close>)
  and the table afterwards.
\<close>

definition save_checkpoint ::
  "('s \<Rightarrow> string) \<Rightarrow> (string \<Rightarrow> string) \<Rightarrow> 's checkpoint list
     \<Rightarrow> string \<Rightarrow> string \<Rightarrow> 's \<Rightarrow> string \<Rightarrow> nat \<times> 's checkpoint list" where
  "save_checkpoint dumps sha256 rows run_id node_key state tenant_id =
     (let serialized = dumps state;
          state_hash = sha256 serialized
      in case find (\<lambda>c. cp_run_id c = run_id \<and> cp_node_key c = node_key
                          \<and> cp_state_hash c = state_hash) rows of
           Some existing \<Rightarrow> (cp_id existing, rows)
         | None \<Rightarrow>
             (let checkpoint = \<lparr>cp_id = next_id rows, cp_run_id = run_id,
                                 cp_node_key = node_key, cp_state_json = state,
                                 cp_state_hash = state_hash, cp_tenant_id = tenant_id\<rparr>
              in (cp_id checkpoint, rows @ [checkpoint])))"

text \<open>
  \<^verbatim>\<open>list_checkpoints\<close>: the rows of a run, newest first
  (\<^verbatim>\<open>order_by(created_at.desc())\<close>).
\<close>

definition list_checkpoints :: "'s checkpoint list \<Rightarrow> string \<Rightarrow> (string \<times> 's) list" where
  "list_checkpoints rows run_id =
     map (\<lambda>c. (cp_node_key c, cp_state_json c)) (rev (filter (\<lambda>c. cp_run_id c = run_id) rows))"

text \<open>The \<^verbatim>\<open>WorkflowStatus\<close> enum and a row of \<^verbatim>\<open>workflow_runs\<close>, keyed by run id.\<close>

datatype WorkflowStatus = PENDING | RUNNING | COMPLETED | FAILED | CANCELLED

record workflow_run =
  patient_id :: string
  status :: WorkflowStatus
  tenant_id :: string

type_synonym runs = "string \<rightharpoonup> workflow_run"

text \<open>\<^verbatim>\<open>create_run_id\<close> inserts the row with the column default \<^verbatim>\<open>PENDING\<close>.\<close>

definition create_run :: "runs \<Rightarrow> string \<Rightarrow> string \<Rightarrow> string \<Rightarrow> runs" where
  "create_run db run_id pid tid =
     db(run_id \<mapsto> \<lparr>patient_id = pid, status = PENDING, tenant_id = tid\<rparr>)"

text \<open>\<^verbatim>\<open>update_run_status\<close>: writes the status when the row exists, whatever it was.\<close>

definition update_run_status :: "runs \<Rightarrow> string \<Rightarrow> WorkflowStatus \<Rightarrow> runs" where
  "update_run_status db run_id st =
     (case db run_id of
        Some workflow_run \<Rightarrow> db(run_id \<mapsto> workflow_run\<lparr>status := st\<rparr>)
      | None \<Rightarrow> db)"

definition get_run_status :: "runs \<Rightarrow> string \<Rightarrow> WorkflowStatus option" where
  "get_run_status db run_id = map_option status (db run_id)"

section \<open>Output normalizer (app/validation/output_validator.py)\<close>

text \<open>
  The values an agent's output dictionary holds (\<^verbatim>\<open>Dict[str, Any]\<close>, as
  \<^verbatim>\<open>model_dump()\<close> produces it). A dictionary is the list of its items in insertion
  order, with distinct keys; \<open>map_of\<close> reads a key and \<open>AList.update\<close> is
  \<^verbatim>\<open>d[k] = v\<close>. Floating-point numbers are left out.
\<close>

datatype json =
    JNone
  | JBool bool
  | JInt int
  | JStr string
  | JList "json list"
  | JDict "(string \<times> json) list"

text \<open>Python's truth value of an object.\<close>

fun truthy :: "json \<Rightarrow> bool" where
  "truthy JNone = False"
| "truthy (JBool b) = b"
| "truthy (JInt i) = (i \<noteq> 0)"
| "truthy (JStr s) = (s \<noteq> [])"
| "truthy (JList xs) = (xs \<noteq> [])"
| "truthy (JDict kvs) = (kvs \<noteq> [])"

definition BULLET_PREFIXES :: "string list" where
  "BULLET_PREFIXES = [''- '', ''* '']"

text \<open>A string between single quotes, as the f-strings of the issue messages write it.\<close>

definition quoted :: "string \<Rightarrow> string" where
  "quoted s = [CHR 0x27] @ s @ [CHR 0x27]"

text \<open>
  Agent 4, the loop \<^verbatim>\<open>for ln in lines\<close>, with its two variables \<open>new_lines\<close> and
  \<open>changed\<close>. In \<^verbatim>\<open>ln.lstrip("-\<bullet>* ")\<close> the bullet is not an ASCII character, so
  on ASCII text the characters dropped are the hyphen, the asterisk and the space.
\<close>

fun bullet_loop :: "string list \<Rightarrow> string list \<Rightarrow> bool \<Rightarrow> string list \<times> bool" where
  "bullet_loop [] new_lines changed = (new_lines, changed)"
| "bullet_loop (ln # lns) new_lines changed =
     (if startswith (strip ln) ''#'' then bullet_loop lns (new_lines @ [ln]) changed
      else if strip ln \<noteq> [] \<and> \<not> list_ex (\<lambda>p. startswith (lstrip ln) p) BULLET_PREFIXES
      then bullet_loop lns (new_lines @ [''- '' @ lstrip_chars ''-* '' ln]) True
      else bullet_loop lns (new_lines @ [ln]) changed)"

text \<open>
  The body of \<^verbatim>\<open>if agent_no == 4\<close>. \<^verbatim>\<open>"Physical Exam" in pe_md\<close> is a substring test
  on a string, a membership test on a list, a key test on a dictionary, and raises
  \<^verbatim>\<open>TypeError\<close> on \<^verbatim>\<open>None\<close>, a Boolean or an integer; \<^verbatim>\<open>pe_md.splitlines()\<close> exists
  on strings only.
\<close>

definition validate_agent_4 ::
  "(string \<times> json) list \<Rightarrow> exn + ((string \<times> json) list \<times> string list \<times> bool)" where
  "validate_agent_4 output =
     (let pe_md = (case map_of output ''content_md'' of None \<Rightarrow> JStr [] | Some v \<Rightarrow> v)
      in case pe_md of
           JStr s \<Rightarrow>
             if contains s ''Physical Exam'' then
               (let lines = splitlines s;
                    (new_lines, changed) = bullet_loop lines [] False
                in if changed
                   then Inr (AList.update ''content_md'' (JStr (join [CHR 0x0A] new_lines)) output,
                             [''Normalized Physical Exam bullet formatting''], True)
                   else Inr (output, [], False))
             else Inr (output, [], False)
         | JList xs \<Rightarrow>
             if JStr ''Physical Exam'' \<in> set xs
             then Inl (AttributeError ''list object has no attribute splitlines'')
             else Inr (output, [], False)
         | JDict kvs \<Rightarrow>
             if ''Physical Exam'' \<in> fst ` set kvs
             then Inl (AttributeError ''dict object has no attribute splitlines'')
             else Inr (output, [], False)
         | _ \<Rightarrow> Inl (TypeError ''argument is not iterable''))"

text \<open>
  Agent 7, the title-casing of a heading:
  \<^verbatim>\<open>" ".join([w.capitalize() if w.isalpha() else w for w in heading.split()])\<close>
\<close>

definition title_case :: "string \<Rightarrow> string" where
  "title_case heading =
     join '' '' (map (\<lambda>w. if isalpha w then capitalize w else w) (split heading))"

text \<open>The f-string \<^verbatim>\<open>f"{heading} #{suffix}"\<close>.\<close>

definition numbered :: "string \<Rightarrow> nat \<Rightarrow> string" where
  "numbered heading suffix = heading @ '' #'' @ str_nat suffix"

text \<open>
  The decimal rendering is injective and has no letters, which is what makes the
  \<^verbatim>\<open>while\<close> loop below end: each round rules out one more element of the finite set
  \<open>seen_headings\<close>.
\<close>

lemma digit_value_digit_char: "d < 10 \<Longrightarrow> digit_value (digit_char d) = d"
proof -
  assume "d < 10"
  then have "d \<in> {0,1,2,3,4,5,6,7,8,9}" by auto
  then show ?thesis
    by (elim insertE emptyE; simp add: digit_value_def digit_char_def digits_def upt_rec)
qed

lemma lower_char_digit: "d < 10 \<Longrightarrow> lower_char (digit_char d) = digit_char d"
proof -
  assume "d < 10"
  then have "d \<in> {0,1,2,3,4,5,6,7,8,9}" by auto
  then show ?thesis
    by (elim insertE emptyE;
        simp add: lower_char_def digit_char_def digits_def ascii_uppercase_def
                  ascii_lowercase_def)
qed

lemma digits_value_str_nat: "digits_value (str_nat n) = n"
proof (induction n rule: str_nat.induct)
  case (1 n)
  show ?case
  proof (cases "n < 10")
    case True
    then show ?thesis
      by (subst str_nat.simps) (simp add: digits_value_def digit_value_digit_char)
  next
    case False
    then have "digits_value (str_nat (n div 10)) = n div 10" using 1 by simp
    then show ?thesis using False
      by (subst str_nat.simps) (simp add: digits_value_def digit_value_digit_char)
  qed
qed

lemma lower_str_nat: "lower (str_nat n) = str_nat n"
proof (induction n rule: str_nat.induct)
  case (1 n)
  show ?case
  proof (cases "n < 10")
    case True
    then show ?thesis
      by (subst (1 2) str_nat.simps) (simp add: lower_def lower_char_digit)
  next
    case False
    then have "lower (str_nat (n div 10)) = str_nat (n div 10)" using 1 by simp
    then show ?thesis using False
      by (subst (1 2) str_nat.simps) (simp add: lower_def lower_char_digit)
  qed
qed

lemma lower_numbered_inj: "lower (numbered h j) = lower (numbered h k) \<Longrightarrow> j = k"
proof -
  assume "lower (numbered h j) = lower (numbered h k)"
  then have "str_nat j = str_nat k"
    using lower_str_nat by (simp add: numbered_def lower_def)
  then show "j = k" by (metis digits_value_str_nat)
qed

text \<open>
  The \<^verbatim>\<open>while new_heading.lower() in seen_headings: suffix += 1\<close> loop: the first
  suffix from the given one on whose numbered heading is not yet seen.
\<close>

function find_suffix :: "string \<Rightarrow> string list \<Rightarrow> nat \<Rightarrow> nat" where
  "find_suffix heading seen_headings suffix =
     (if lower (numbered heading suffix) \<in> set seen_headings
      then find_suffix heading seen_headings (suffix + 1)
      else suffix)"
  by pat_completeness auto
termination
proof (relation "measure (\<lambda>(h, seen, k).
          card {x \<in> set seen. \<exists>j\<ge>k. x = lower (numbered h j)})")
  show "wf (measure (\<lambda>(h, seen, k). card {x \<in> set seen. \<exists>j\<ge>k. x = lower (numbered h j)}))"
    by simp
next
  fix heading :: string and seen_headings :: "string list" and suffix :: nat
  assume a: "lower (numbered heading suffix) \<in> set seen_headings"
  let ?A = "{x \<in> set seen_headings. \<exists>j\<ge>suffix + 1. x = lower (numbered heading j)}"
  let ?B = "{x \<in> set seen_headings. \<exists>j\<ge>suffix. x = lower (numbered heading j)}"
  have "?A \<subseteq> ?B" by (auto intro: Suc_leD)
  moreover have "lower (numbered heading suffix) \<in> ?B" using a by auto
  moreover have "lower (numbered heading suffix) \<notin> ?A"
    by (auto dest: lower_numbered_inj)
  ultimately have "?A \<subset> ?B" by blast
  then have "card ?A < card ?B" by (intro psubset_card_mono) auto
  then show "((heading, seen_headings, suffix + 1), (heading, seen_headings, suffix))
      \<in> measure (\<lambda>(h, seen, k). card {x \<in> set seen. \<exists>j\<ge>k. x = lower (numbered h j)})"
    by simp
qed

declare find_suffix.simps [simp del]

text \<open>
  The heading rules for one problem \<open>p\<close>, in the order of the source: the POA tag, the
  title case, the numeric suffix of a duplicate. \<open>heading_rules\<close> gets the (non-empty)
  heading text and returns the dictionary, the set of headings seen, the issues and the
  \<open>repaired\<close> flag as they stand afterwards.
\<close>

definition add_poa ::
  "string \<Rightarrow> (string \<times> json) list \<Rightarrow> string list \<Rightarrow> bool
     \<Rightarrow> string \<times> (string \<times> json) list \<times> string list \<times> bool" where
  "add_poa heading p issues repaired =
     (if \<not> contains (upper heading) ''POA''
      then (heading @ '' (POA)'',
            AList.update ''heading'' (JStr (heading @ '' (POA)'')) p,
            issues @ [''Added POA tag to problem heading '' @ quoted heading], True)
      else (heading, p, issues, repaired))"

definition enforce_title_case ::
  "string \<Rightarrow> (string \<times> json) list \<Rightarrow> string list \<Rightarrow> bool
     \<Rightarrow> string \<times> (string \<times> json) list \<times> string list \<times> bool" where
  "enforce_title_case heading p issues repaired =
     (if title_case heading \<noteq> heading
      then (title_case heading,
            AList.update ''heading'' (JStr (title_case heading)) p,
            issues @ [''Title-cased problem heading '' @ quoted heading], True)
      else (heading, p, issues, repaired))"

definition deduplicate ::
  "string list \<Rightarrow> string \<Rightarrow> (string \<times> json) list \<Rightarrow> string list \<Rightarrow> bool
     \<Rightarrow> string \<times> (string \<times> json) list \<times> string list \<times> bool" where
  "deduplicate seen_headings heading p issues repaired =
     (if lower heading \<in> set seen_headings
      then (let new_heading = numbered heading (find_suffix heading seen_headings 2)
            in (new_heading,
                AList.update ''heading'' (JStr new_heading) p,
                issues @ [''Disambiguated duplicate heading '' @ quoted heading
                          @ '' -> '' @ quoted new_heading], True))
      else (heading, p, issues, repaired))"

definition heading_rules ::
  "string \<Rightarrow> (string \<times> json) list \<Rightarrow> string list \<Rightarrow> string list \<Rightarrow> bool
     \<Rightarrow> (string \<times> json) list \<times> string list \<times> string list \<times> bool" where
  "heading_rules original_heading p seen_headings issues repaired =
     (case add_poa original_heading p issues repaired of (h1, p1, issues1, repaired1) \<Rightarrow>
      case enforce_title_case h1 p1 issues1 repaired1 of (h2, p2, issues2, repaired2) \<Rightarrow>
      case deduplicate seen_headings h2 p2 issues2 repaired2 of (h3, p3, issues3, repaired3) \<Rightarrow>
        (p3, seen_headings @ [lower h3], issues3, repaired3))"

text \<open>
  The plan rules: the loop \<^verbatim>\<open>for item in plan\<close> with its variables \<open>new_plan\<close> and
  \<open>changed_plan\<close>; an item that is not a string is skipped.
\<close>

definition fix_item :: "string \<Rightarrow> string \<times> bool" where
  "fix_item item =
     (let itm = strip item;
          bracketed = startswith itm ''[]'';
          itm1 = (if \<not> bracketed then ''[] '' @ itm else itm);
          terminated = endswith (rstrip itm1) ''.'';
          itm2 = (if \<not> terminated then rstrip itm1 @ ''.'' else itm1)
      in (itm2, \<not> bracketed \<or> \<not> terminated))"

fun plan_loop :: "json list \<Rightarrow> string list \<Rightarrow> bool \<Rightarrow> string list \<times> bool" where
  "plan_loop [] new_plan changed_plan = (new_plan, changed_plan)"
| "plan_loop (JStr item # items) new_plan changed_plan =
     plan_loop items (new_plan @ [fst (fix_item item)]) (changed_plan \<or> snd (fix_item item))"
| "plan_loop (other # items) new_plan changed_plan = plan_loop items new_plan changed_plan"

definition plan_rules ::
  "(string \<times> json) list \<Rightarrow> string list \<Rightarrow> bool
     \<Rightarrow> (string \<times> json) list \<times> string list \<times> bool" where
  "plan_rules p issues repaired =
     (case map_of p ''plan'' of
        Some (JList plan) \<Rightarrow>
          (case plan_loop plan [] False of (new_plan, changed_plan) \<Rightarrow>
             if changed_plan
             then (AList.update ''plan'' (JList (map JStr new_plan)) p,
                   issues @ [''Bracketed plan items for problem heading'',
                             ''Normalized plan item formatting''], True)
             else (p, issues, repaired))
      | _ \<Rightarrow> (p, issues, repaired))"

text \<open>
  The body of \<^verbatim>\<open>for p in problems\<close> for a dictionary \<open>p\<close>.
  \<^verbatim>\<open>heading = p.get("heading", "") or ""\<close> replaces a missing or false value by the
  empty string; a true value that is not a string has no \<^verbatim>\<open>upper\<close> method.
\<close>

definition problem_step ::
  "(string \<times> json) list \<Rightarrow> string list \<Rightarrow> string list \<Rightarrow> bool
     \<Rightarrow> exn + ((string \<times> json) list \<times> string list \<times> string list \<times> bool)" where
  "problem_step p seen_headings issues repaired =
     (let heading = (case map_of p ''heading'' of
                       None \<Rightarrow> JStr []
                     | Some v \<Rightarrow> if truthy v then v else JStr [])
      in if truthy heading then
           (case heading of
              JStr h \<Rightarrow>
                (case heading_rules h p seen_headings issues repaired of
                   (p1, seen1, issues1, repaired1) \<Rightarrow>
                     (case plan_rules p1 issues1 repaired1 of
                        (p2, issues2, repaired2) \<Rightarrow> Inr (p2, seen1, issues2, repaired2)))
            | _ \<Rightarrow> Inl (AttributeError ''object has no attribute upper''))
         else
           (case plan_rules p issues repaired of
              (p2, issues2, repaired2) \<Rightarrow> Inr (p2, seen_headings, issues2, repaired2)))"

text \<open>
  The loop \<^verbatim>\<open>for p in problems\<close>: an element that is not a dictionary is passed over;
  a dictionary is changed in place, so the list afterwards holds the changed one at the
  same position. \<open>done\<close> are the elements already visited.
\<close>

fun problems_loop ::
  "json list \<Rightarrow> json list \<Rightarrow> string list \<Rightarrow> string list \<Rightarrow> bool
     \<Rightarrow> exn + (json list \<times> string list \<times> bool)" where
  "problems_loop [] done seen_headings issues repaired = Inr (done, issues, repaired)"
| "problems_loop (JDict p # ps) done seen_headings issues repaired =
     (case problem_step p seen_headings issues repaired of
        Inl e \<Rightarrow> Inl e
      | Inr (p', seen', issues', repaired') \<Rightarrow>
          problems_loop ps (done @ [JDict p']) seen' issues' repaired')"
| "problems_loop (other # ps) done seen_headings issues repaired =
     problems_loop ps (done @ [other]) seen_headings issues repaired"

definition validate_agent_7 ::
  "(string \<times> json) list \<Rightarrow> exn + ((string \<times> json) list \<times> string list \<times> bool)" where
  "validate_agent_7 output =
     (case map_of output ''problems'' of
        Some (JList problems) \<Rightarrow>
          (case problems_loop problems [] [] [] False of
             Inl e \<Rightarrow> Inl e
           | Inr (problems', issues, repaired) \<Rightarrow>
               Inr (AList.update ''problems'' (JList problems') output, issues, repaired))
      | _ \<Rightarrow> Inr (output, [], False))"

text \<open>
  \<^verbatim>\<open>validate_agent_output\<close>. The argument is a dictionary (\<^verbatim>\<open>Dict[str, Any]\<close>), so
  \<^verbatim>\<open>dict(output_dict) if output_dict else {}\<close> is a copy of it. The result is the
  exception raised, or the triple (output, issues, repaired). \<open>no\<close> is the argument
  \<^verbatim>\<open>agent_no\<close>.
\<close>

definition validate_agent_output ::
  "int \<Rightarrow> (string \<times> json) list \<Rightarrow> exn + ((string \<times> json) list \<times> string list \<times> bool)" where
  "validate_agent_output no output_dict =
     (let output = output_dict
      in if no = 4 then validate_agent_4 output
         else if no = 7 then validate_agent_7 output
         else Inr (output, [], False))"

text \<open>
  Two shorthands for stating what the heading rules do: the heading after the POA rule,
  and the state of a problem whose heading \<open>h\<close> went through the rules (its heading is
  the title-cased tagged heading, possibly with a numeric suffix, and a change made by
  the title-casing is on record).
\<close>

abbreviation tagged :: "string \<Rightarrow> string" where
  "tagged h \<equiv> (if contains (upper h) ''POA'' then h else h @ '' (POA)'')"

abbreviation title_cased ::
  "(string \<times> json) list \<Rightarrow> string \<Rightarrow> string list \<Rightarrow> bool \<Rightarrow> bool" where
  "title_cased p' h issues' repaired' \<equiv>
     (\<exists>k. map_of p' ''heading'' = Some (JStr (title_case (tagged h)))
         \<or> map_of p' ''heading'' = Some (JStr (numbered (title_case (tagged h)) k)))
     \<and> (title_case (tagged h) \<noteq> tagged h
          \<longrightarrow> repaired' \<and> (''Title-cased problem heading '' @ quoted (tagged h)) \<in> set issues')"

subsection \<open>Compliant output, in the words of the specification\<close>

text \<open>
  The specification's format invariants, for comparing them with what the code leaves
  unchanged. Physical exam (agent 4): every line that is neither a heading nor empty
  begins with a bullet marker. Orchestrator (agent 7): each problem heading carries the
  provenance tag, no two headings are equal up to case, and each plan line is wrapped in
  the bracket marker and terminated with a period. Other stages have no rule.
\<close>

definition bulleted :: "string \<Rightarrow> bool" where
  "bulleted ln = list_ex (\<lambda>p. startswith (lstrip ln) p) BULLET_PREFIXES"

definition spec_compliant_4 :: "(string \<times> json) list \<Rightarrow> bool" where
  "spec_compliant_4 output =
     (case map_of output ''content_md'' of
        None \<Rightarrow> True
      | Some (JStr s) \<Rightarrow>
          list_all (\<lambda>ln. startswith (strip ln) ''#'' \<or> strip ln = [] \<or> bulleted ln)
            (splitlines s)
      | Some other \<Rightarrow> False)"

fun plan_line_ok :: "json \<Rightarrow> bool" where
  "plan_line_ok (JStr s) = (startswith s ''[]'' \<and> endswith s ''.'')"
| "plan_line_ok other = False"

fun heading_of :: "json \<Rightarrow> string option" where
  "heading_of (JDict p) = (case map_of p ''heading'' of Some (JStr h) \<Rightarrow> Some h | _ \<Rightarrow> None)"
| "heading_of other = None"

definition spec_compliant_problem :: "json \<Rightarrow> bool" where
  "spec_compliant_problem x =
     (case x of
        JDict p \<Rightarrow>
          (case heading_of x of Some h \<Rightarrow> contains (upper h) ''POA'' | None \<Rightarrow> False)
          \<and> (case map_of p ''plan'' of
                None \<Rightarrow> True
              | Some (JList plan) \<Rightarrow> list_all plan_line_ok plan
              | Some other \<Rightarrow> False)
      | _ \<Rightarrow> False)"

definition headings :: "json list \<Rightarrow> string list" where
  "headings problems = List.map_filter heading_of problems"

definition spec_compliant_7 :: "(string \<times> json) list \<Rightarrow> bool" where
  "spec_compliant_7 output =
     (case map_of output ''problems'' of
        None \<Rightarrow> True
      | Some (JList problems) \<Rightarrow>
          list_all spec_compliant_problem problems
          \<and> distinct (map lower (headings problems))
      | Some other \<Rightarrow> False)"

definition spec_compliant :: "int \<Rightarrow> (string \<times> json) list \<Rightarrow> bool" where
  "spec_compliant no output =
     (if no = 4 then spec_compliant_4 output
      else if no = 7 then spec_compliant_7 output
      else True)"

text \<open>
  What the code asks of the headings beyond that: each is its own per-word capitalized
  form.
\<close>

definition title_cased_headings :: "(string \<times> json) list \<Rightarrow> bool" where
  "title_cased_headings output =
     (case map_of output ''problems'' of
        Some (JList problems) \<Rightarrow> list_all (\<lambda>h. title_case h = h) (headings problems)
      | _ \<Rightarrow> True)"

section \<open>Pipeline state and Phase A (app/graph/workflow.py)\<close>

text \<open>
  \<^verbatim>\<open>WorkflowState\<close>: the fields the modelled functions read or write (\<open>ws_patient_id\<close>
  is \<^verbatim>\<open>patient_id\<close>; vitals, labs, context flags and the safety issues are carried along
  unchanged and left out). An output map is a dictionary from stage key to the stage's
  output, a JSON value: the dump of the agent's output object, or, after a resume, the
  dictionary read back from the checkpoint.
\<close>

record WorkflowState =
  run_id :: string
  ws_patient_id :: string
  raw_text_refs :: "string list"
  stage_a_outputs :: "(string \<times> json) list"
  stage_b_outputs :: "(string \<times> json) list"
  stage_c_outputs :: "(string \<times> json) list"
  errors :: "string list"
  completed_nodes :: "string list"

text \<open>The f-string \<^verbatim>\<open>f"agent_{i}"\<close>.\<close>

definition agent_key :: "nat \<Rightarrow> string" where
  "agent_key i = ''agent_'' @ str_nat i"

text \<open>
  The state blob written for a finished stage:
  \<^verbatim>\<open>{"output": result.model_dump(), "status": "completed", "metrics": metrics}\<close> with
  \<^verbatim>\<open>metrics = result.flags.get("metrics", {})\<close>.
\<close>

definition checkpoint_state :: "(string \<times> json) list \<Rightarrow> (string \<times> json) list" where
  "checkpoint_state dump =
     [(''output'', JDict dump), (''status'', JStr ''completed''),
      (''metrics'', (case map_of dump ''flags'' of
                       Some (JDict flags) \<Rightarrow>
                         (case map_of flags ''metrics'' of Some m \<Rightarrow> m | None \<Rightarrow> JDict [])
                     | _ \<Rightarrow> JDict []))]"

text \<open>
  What a node does besides changing the state: the agents whose \<^verbatim>\<open>run_with_retry\<close> it
  calls, and the \<^verbatim>\<open>save_checkpoint(run_id, node_key, state)\<close> calls it makes, in order.
\<close>

record node_effects =
  invoked :: "nat list"
  saved :: "(string \<times> (string \<times> json) list) list"

text \<open>
  The loop \<^verbatim>\<open>for i, result in enumerate(results)\<close> of \<^verbatim>\<open>stage_a_parallel\<close>. A result
  is the pair of the agent's own number \<open>k\<close> (\<^verbatim>\<open>result.agent_no\<close>) and what
  \<^verbatim>\<open>asyncio.gather(..., return_exceptions=True)\<close> collected for it: the exception, or the
  dump of the output. The key is built from the position \<open>i\<close> in \<open>results\<close>. The value
  stored is \<^verbatim>\<open>result.__class__(**validated)\<close>, the validated dump (the model's
  constructor ignores the extra \<^verbatim>\<open>_validation\<close> entry).
\<close>

fun results_loop ::
  "nat \<Rightarrow> (nat \<times> (exn + (string \<times> json) list)) list \<Rightarrow> WorkflowState
     \<Rightarrow> (string \<times> json) list \<Rightarrow> (string \<times> (string \<times> json) list) list
     \<Rightarrow> exn + (WorkflowState \<times> (string \<times> json) list
                \<times> (string \<times> (string \<times> json) list) list)" where
  "results_loop i [] state outputs saves = Inr (state, outputs, saves)"
| "results_loop i ((k, Inl e) # results) state outputs saves =
     results_loop (i + 1) results
       (state\<lparr>errors := errors state @ [''Agent '' @ str_nat (i + 1) @ '': '' @ str_exn e]\<rparr>)
       outputs saves"
| "results_loop i ((k, Inr dump) # results) state outputs saves =
     (case validate_agent_output (int k) dump of
        Inl e \<Rightarrow> Inl e
      | Inr (validated, issues, repaired) \<Rightarrow>
          results_loop (i + 1) results
            (state\<lparr>completed_nodes := completed_nodes state @ [agent_key (i + 1)]\<rparr>)
            (AList.update (agent_key (i + 1)) (JDict validated) outputs)
            (saves @ [(agent_key (i + 1), checkpoint_state dump)]))"

text \<open>
  \<^verbatim>\<open>stage_a_parallel\<close>. \<open>run k state\<close> is the outcome of agent \<open>k\<close>'s
  \<^verbatim>\<open>run_with_retry\<close> on the input built from the state: the exception it raises, or the
  dump of its output. Events, metrics and model-usage records are left out.
\<close>

definition stage_a_parallel ::
  "(nat \<Rightarrow> WorkflowState \<Rightarrow> exn + (string \<times> json) list) \<Rightarrow> WorkflowState
     \<Rightarrow> exn + (WorkflowState \<times> node_effects)" where
  "stage_a_parallel run state =
     (let existing = set (map fst (stage_a_outputs state));
          pending_agents = filter (\<lambda>i. agent_key i \<notin> existing) [1 ..< 7]
      in if pending_agents = [] then Inr (state, \<lparr>invoked = [], saved = []\<rparr>)
         else
           (let results = map (\<lambda>k. (k, run k state)) pending_agents
            in case results_loop 0 results state [] [] of
                 Inl e \<Rightarrow> Inl e
               | Inr (state', outputs, saves) \<Rightarrow>
                   Inr (state'\<lparr>stage_a_outputs := outputs\<rparr>,
                        \<lparr>invoked = pending_agents, saved = saves\<rparr>)))"

section \<open>Run lifecycle (app/api/workflows.py)\<close>

text \<open>\<^verbatim>\<open>HTTPException(status_code, detail)\<close>\<close>

datatype http_error = HTTPException nat string

text \<open>
  \<^verbatim>\<open>cancel_workflow\<close>: the run is looked up by id and tenant; a terminal status is
  refused, any other is overwritten with \<^verbatim>\<open>CANCELLED\<close>.
\<close>

definition cancel_workflow :: "runs \<Rightarrow> string \<Rightarrow> string \<Rightarrow> http_error + runs" where
  "cancel_workflow db rid tid =
     (case db rid of
        None \<Rightarrow> Inl (HTTPException 404 ''Workflow run not found'')
      | Some workflow_run \<Rightarrow>
          if tenant_id workflow_run \<noteq> tid
          then Inl (HTTPException 404 ''Workflow run not found'')
          else if status workflow_run \<in> {COMPLETED, FAILED, CANCELLED}
          then Inl (HTTPException 400 ''Workflow already terminal'')
          else Inr (update_run_status db rid CANCELLED))"

text \<open>
  The loop \<^verbatim>\<open>for cp in checkpoints\<close> of \<^verbatim>\<open>resume_workflow\<close>, over the pairs
  (\<^verbatim>\<open>node_key\<close>, \<^verbatim>\<open>state\<close>) newest first, with the three output maps and
  \<open>completed_nodes\<close> as they grow. \<^verbatim>\<open>int(node.split("_")[1])\<close> raises
  \<^verbatim>\<open>ValueError\<close> when the text after the first underscore is no number; the list read
  is in range because the key starts with \<^verbatim>\<open>agent_\<close>.
\<close>

fun rebuild ::
  "(string \<times> (string \<times> json) list) list
     \<Rightarrow> (string \<times> json) list \<Rightarrow> (string \<times> json) list \<Rightarrow> (string \<times> json) list
     \<Rightarrow> string list
     \<Rightarrow> exn + ((string \<times> json) list \<times> (string \<times> json) list \<times> (string \<times> json) list
                \<times> string list)" where
  "rebuild [] a b c nodes = Inr (a, b, c, nodes)"
| "rebuild ((node, st) # checkpoints) a b c nodes =
     (if map_of st ''status'' = Some (JStr ''completed'') then
        (let out = (case map_of st ''output'' of
                      Some v \<Rightarrow> if truthy v then v else JDict []
                    | None \<Rightarrow> JDict [])
         in if startswith node ''agent_'' then
              (case py_int (split_on CHR ''_'' node ! 1) of
                 None \<Rightarrow> Inl (ValueError ''invalid literal for int() with base 10'')
               | Some num \<Rightarrow>
                   if 1 \<le> num \<and> num \<le> 6
                   then rebuild checkpoints (AList.update node out a) b c (nodes @ [node])
                   else if num \<in> {7, 8, 9}
                   then rebuild checkpoints a (AList.update node out b) c (nodes @ [node])
                   else if num = 10
                   then rebuild checkpoints a b (AList.update node out c) (nodes @ [node])
                   else rebuild checkpoints a b c (nodes @ [node]))
            else rebuild checkpoints a b c (nodes @ [node]))
      else rebuild checkpoints a b c nodes)"

text \<open>
  \<^verbatim>\<open>resume_workflow\<close>. It answers with an HTTP error, with "Already completed", or with
  "Resume started"; in the last case the status is set to \<^verbatim>\<open>RUNNING\<close> and the
  pipeline is started on the rebuilt state. The result holds the run table afterwards.
  An exception other than \<^verbatim>\<open>HTTPException\<close> becomes the answer 500. The resume
  event and the audit record are left out.
\<close>

datatype resume_result =
    Already_completed "string list"
  | Resume_started WorkflowState "string list"

definition resume_workflow ::
  "runs \<Rightarrow> (string \<times> json) list checkpoint list \<Rightarrow> string \<Rightarrow> string
     \<Rightarrow> http_error + (runs \<times> resume_result)" where
  "resume_workflow db rows rid tid =
     (case db rid of
        None \<Rightarrow> Inl (HTTPException 404 ''Workflow run not found'')
      | Some workflow_run \<Rightarrow>
          if tenant_id workflow_run \<noteq> tid
          then Inl (HTTPException 404 ''Workflow run not found'')
          else if status workflow_run \<notin> {FAILED, RUNNING, PENDING}
          then Inl (HTTPException 400 ''Workflow not resumable'')
          else
            (case rebuild (list_checkpoints rows rid) [] [] [] [] of
               Inl e \<Rightarrow> Inl (HTTPException 500 (''Failed to resume workflow: '' @ str_exn e))
             | Inr (a, b, c, nodes) \<Rightarrow>
                 if list_all (\<lambda>i. agent_key i \<in> set nodes) [1 ..< 11]
                 then Inr (db, Already_completed nodes)
                 else Inr (update_run_status db rid RUNNING,
                           Resume_started
                             \<lparr>run_id = rid, ws_patient_id = patient_id workflow_run,
                              raw_text_refs = [''placeholder_raw_text''],
                              stage_a_outputs = a, stage_b_outputs = b,
                              stage_c_outputs = c, errors = [],
                              completed_nodes = nodes\<rparr>
                             nodes)))"

text \<open>
  \<^verbatim>\<open>run_workflow_async\<close>, from the point where \<^verbatim>\<open>await app.ainvoke(initial_state)\<close>
  ends: the graph returned a final state, or raised. \<open>db\<close> is the run table as it stands
  at that moment. The first case re-reads the status and returns when it is
  \<^verbatim>\<open>CANCELLED\<close>; the handler \<^verbatim>\<open>except Exception\<close> of the second writes
  \<^verbatim>\<open>FAILED\<close>.
\<close>

datatype ainvoke_result =
    Final_state WorkflowState
  | Ainvoke_raised exn

definition run_workflow_async :: "runs \<Rightarrow> ainvoke_result \<Rightarrow> string \<Rightarrow> runs" where
  "run_workflow_async db result rid =
     (case result of
        Final_state final_state \<Rightarrow>
          (let current_status = get_run_status db rid
           in if current_status = Some CANCELLED then db
              else if errors final_state \<noteq> [] then update_run_status db rid FAILED
              else update_run_status db rid COMPLETED)
      | Ainvoke_raised e \<Rightarrow> update_run_status db rid FAILED)"

section \<open>Safety rule engine (app/safety/rules.py)\<close>

text \<open>The dataclass \<^verbatim>\<open>SafetyIssue\<close>; \<open>node_key\<close> defaults to the empty string.\<close>

record SafetyIssue =
  rule_id :: string
  message :: string
  severity :: string
  node_key :: string

text \<open>
  The snapshot the rules read (\<^verbatim>\<open>state: Dict[str, Any]\<close>), by the paths they use:
  \<^verbatim>\<open>state["patient"]["conditions"]\<close>, \<^verbatim>\<open>state["problems"]\<close>,
  \<^verbatim>\<open>state["medications"]\<close>, \<^verbatim>\<open>state["orders"]\<close>, \<^verbatim>\<open>state["labs"]["creatinine"]\<close>
  and \<^verbatim>\<open>state["plan"]["medications"]\<close>. A missing key reads as the empty list
  (\<^verbatim>\<open>.get(key, [])\<close>) or as \<^verbatim>\<open>None\<close>; \<open>state_problems\<close> is the key \<^verbatim>\<open>problems\<close>. The lists hold strings. The creatinine value
  is of any type \<open>'l\<close>; what Python does with it enters as three operations: its truth
  value, the test \<^verbatim>\<open>float(creatinine) > 1.5\<close> (floating point; it raises on a value
  that is no number) and its rendering in an f-string.
\<close>

record 'l safety_state =
  patient_conditions :: "string list"
  state_problems :: "string list"
  medications :: "string list"
  orders :: "string list"
  labs_creatinine :: "'l option"
  plan_medications :: "string list"

record 'l lab_ops =
  lab_truthy :: "'l \<Rightarrow> bool"
  lab_above_1_5 :: "'l \<Rightarrow> exn + bool"
  lab_str :: "'l \<Rightarrow> string"

text \<open>
  The class \<^verbatim>\<open>SafetyRule\<close>: an id, a description and the method \<^verbatim>\<open>applies\<close>, which
  returns its issues or raises.
\<close>

record 'l SafetyRule =
  rule_id :: string
  description :: string
  applies :: "'l safety_state \<Rightarrow> exn + SafetyIssue list"

definition VTEProphylaxisRule :: "'l SafetyRule" where
  "VTEProphylaxisRule =
     \<lparr>rule_id = ''vte_prophylaxis'',
      description = ''VTE prophylaxis assessment for high-risk patients'',
      applies = (\<lambda>state.
        let all_conditions = patient_conditions state @ state_problems state;
            surgical_risk = list_ex (\<lambda>risk. risk \<in> set all_conditions)
                              [''surgery_planned'', ''surgery'', ''surgical''];
            medical_risk = list_ex (\<lambda>risk. risk \<in> set all_conditions)
                             [''pneumonia'', ''immobility'', ''cancer'', ''heart_failure''];
            all_meds = medications state @ orders state;
            has_anticoagulation =
              list_ex (\<lambda>med. contains (lower med) ''anticoagul''
                             \<or> contains (lower med) ''heparin''
                             \<or> contains (lower med) ''warfarin'') all_meds
        in if (surgical_risk \<or> medical_risk) \<and> \<not> has_anticoagulation
           then Inr [\<lparr>SafetyIssue.rule_id = ''vte_prophylaxis'',
                      message = ''VTE prophylaxis should be considered for ''
                                @ (if surgical_risk then ''surgical'' else ''medical'')
                                @ '' patient with risk factors'',
                      severity = ''warning'', node_key = []\<rparr>]
           else Inr [])\<rparr>"

definition RenalDosingRule :: "'l lab_ops \<Rightarrow> 'l SafetyRule" where
  "RenalDosingRule ops =
     \<lparr>rule_id = ''renal_dosing'',
      description = ''Renal dosing adjustment for medications'',
      applies = (\<lambda>state.
        case labs_creatinine state of
          None \<Rightarrow> Inr []
        | Some creatinine \<Rightarrow>
            if \<not> lab_truthy ops creatinine then Inr []
            else (case lab_above_1_5 ops creatinine of
                    Inl e \<Rightarrow> Inl e
                  | Inr exceeds \<Rightarrow>
                      if exceeds
                      then Inr (map (\<lambda>med.
                                  \<lparr>SafetyIssue.rule_id = ''renal_dosing'',
                                   message = ''Consider renal dose adjustment for '' @ med
                                             @ '' (Cr: '' @ lab_str ops creatinine @ '')'',
                                   severity = ''warning'', node_key = []\<rparr>)
                                (filter (\<lambda>med. list_ex (\<lambda>drug. contains (lower med) drug)
                                                  [''metformin'', ''gabapentin'', ''atenolol''])
                                   (medications state)))
                      else Inr []))\<rparr>"

definition NSAIDContraindicationRule :: "'l SafetyRule" where
  "NSAIDContraindicationRule =
     \<lparr>rule_id = ''nsaid_ckd_contraindication'',
      description = ''NSAID contraindication in chronic kidney disease'',
      applies = (\<lambda>state.
        let has_ckd = (''ckd'' \<in> set (map lower (patient_conditions state)));
            nsaid_ordered = list_ex (\<lambda>order. contains (lower order) ''nsaid'') (orders state)
        in if has_ckd \<and> nsaid_ordered
           then Inr [\<lparr>SafetyIssue.rule_id = ''nsaid_ckd_contraindication'',
                      message = ''NSAID order flagged in CKD'',
                      severity = ''error'', node_key = []\<rparr>]
           else Inr [])\<rparr>"

definition DrugInteractionRule :: "'l SafetyRule" where
  "DrugInteractionRule =
     \<lparr>rule_id = ''warfarin_amiodarone_interaction'',
      description = ''Warfarin and amiodarone interaction'',
      applies = (\<lambda>state.
        let all_meds = map lower (medications state) @ map lower (plan_medications state);
            has_warfarin = list_ex (\<lambda>med. contains med ''warfarin'') all_meds;
            has_amiodarone = list_ex (\<lambda>med. contains med ''amiodarone'') all_meds
        in if has_warfarin \<and> has_amiodarone
           then Inr [\<lparr>SafetyIssue.rule_id = ''warfarin_amiodarone_interaction'',
                      message = ''Monitor INR closely (warfarin + amiodarone)'',
                      severity = ''warning'', node_key = []\<rparr>]
           else Inr [])\<rparr>"

text \<open>
  \<^verbatim>\<open>SafetyRuleRegistry\<close>: the dictionary \<^verbatim>\<open>_rules\<close> from rule id to rule, in
  insertion order; \<^verbatim>\<open>register\<close> stores under the rule's id. The global \<open>registry\<close>
  is the empty one after the four \<^verbatim>\<open>register\<close> calls at the end of the module.
\<close>

definition register ::
  "(string \<times> 'l SafetyRule) list \<Rightarrow> 'l SafetyRule \<Rightarrow> (string \<times> 'l SafetyRule) list" where
  "register rules rule = AList.update (rule_id rule) rule rules"

definition registry :: "'l lab_ops \<Rightarrow> (string \<times> 'l SafetyRule) list" where
  "registry ops =
     register (register (register (register [] VTEProphylaxisRule) (RenalDosingRule ops))
                 NSAIDContraindicationRule) DrugInteractionRule"

text \<open>
  \<^verbatim>\<open>check_all_rules\<close>: the loop over \<^verbatim>\<open>self._rules.values()\<close>. An issue whose
  \<open>node_key\<close> is empty gets the given one (\<open>source\<close> is the argument \<^verbatim>\<open>node_key\<close>).
  A rule that raises ends the call with its exception.
\<close>

definition tag :: "string \<Rightarrow> SafetyIssue \<Rightarrow> SafetyIssue" where
  "tag source issue = (if node_key issue = [] then issue\<lparr>node_key := source\<rparr> else issue)"

fun rules_loop ::
  "'l SafetyRule list \<Rightarrow> 'l safety_state \<Rightarrow> string \<Rightarrow> SafetyIssue list
     \<Rightarrow> exn + SafetyIssue list" where
  "rules_loop [] state source issues = Inr issues"
| "rules_loop (rule # rules) state source issues =
     (case applies rule state of
        Inl e \<Rightarrow> Inl e
      | Inr rule_issues \<Rightarrow> rules_loop rules state source (issues @ map (tag source) rule_issues))"

definition check_all_rules ::
  "(string \<times> 'l SafetyRule) list \<Rightarrow> 'l safety_state \<Rightarrow> string \<Rightarrow> exn + SafetyIssue list" where
  "check_all_rules rules state source = rules_loop (map snd rules) state source []"

definition check_safety_rules ::
  "'l lab_ops \<Rightarrow> 'l safety_state \<Rightarrow> string \<Rightarrow> exn + SafetyIssue list" where
  "check_safety_rules ops state source = check_all_rules (registry ops) state source"

text \<open>The issues a rule returned, none when it raised.\<close>

fun returned_issues :: "exn + SafetyIssue list \<Rightarrow> SafetyIssue list" where
  "returned_issues (Inr issues) = issues"
| "returned_issues (Inl e) = []"

section \<open>Properties of the executor\<close>

lemma upt_4: "[0 ..< 4] = [0, Suc 0, 2, 3]"
  by (simp add: upt_rec)

text \<open>
  C5. A stage whose work raises a Transient error at every attempt has its work invoked
  exactly \<open>max_retries\<close> = 4 times (attempts 0 to 3) and then its fallback invoked exactly
  once: the calls made are exactly these five, in this order.
\<close>

theorem retry_exhaustion:
  assumes "\<forall>i. \<exists>m. process i = Inl (TransientAgentError m)"
  shows "calls (run_with_retry (BaseAgent_init no nm) process fallback_process)
           = [Process_call 0, Process_call 1, Process_call 2, Process_call 3, Fallback_call]"
proof -
  obtain m0 where p0: "process 0 = Inl (TransientAgentError m0)" using assms by blast
  obtain m1 where p1: "process (Suc 0) = Inl (TransientAgentError m1)" using assms by blast
  obtain m2 where p2: "process 2 = Inl (TransientAgentError m2)" using assms by blast
  obtain m3 where p3: "process 3 = Inl (TransientAgentError m3)" using assms by blast
  show ?thesis
    by (cases "fallback_process (Some (TransientAgentError m3))")
       (auto simp: calls_def run_with_retry_def BaseAgent_init_def upt_4 p0 p1 p2 p3
                   retryable_def split: option.splits)
qed

theorem retry_exhaustion_witness:
  "calls (run_with_retry (BaseAgent_init 50 ''Flaky'')
            (\<lambda>i. Inl (TransientAgentError ''Simulated transient error'') :: exn + string)
            (\<lambda>e. Inr (Some ''# Fallback Output'')))
     = [Process_call 0, Process_call 1, Process_call 2, Process_call 3, Fallback_call]"
  using retry_exhaustion [of "\<lambda>i. Inl (TransientAgentError ''Simulated transient error'')"
                             50 "''Flaky''" "\<lambda>e. Inr (Some ''# Fallback Output'')"]
  by simp

lemma retry_loop_trace_mono:
  "set tr \<subseteq> set (snd (retry_loop ag process xs last_error atts tr))"
proof (induction xs arbitrary: last_error atts tr)
  case Nil
  show ?case by simp
next
  case (Cons a xs)
  show ?case
  proof (cases "process a")
    case (Inr r)
    then show ?thesis by (auto simp: Let_def)
  next
    case (Inl e)
    show ?thesis
    proof (cases "a + 1 < max_retries ag \<and> retryable e \<and> a < length (retry_delays ag)")
      case True
      let ?tr = "tr @ [Process_call a, Retried_event (a + 1) (str_exn e),
                       Sleep (retry_delays ag ! a)]"
      have "set tr \<subseteq> set ?tr" by auto
      also have "\<dots> \<subseteq> set (snd (retry_loop ag process xs (Some e) (a + 1) ?tr))"
        by (rule Cons.IH)
      finally show ?thesis using Inl True by (simp add: Let_def)
    next
      case False
      with Inl show ?thesis by (auto simp: Let_def)
    qed
  qed
qed

lemma retry_loop_head_called:
  "Process_call a \<in> set (snd (retry_loop ag process (a # xs) last_error atts tr))"
proof (cases "process a")
  case (Inl e)
  show ?thesis
  proof (cases "a + 1 < max_retries ag \<and> retryable e \<and> a < length (retry_delays ag)")
    case True
    have "Process_call a \<in> set (tr @ [Process_call a, Retried_event (a + 1) (str_exn e),
                                        Sleep (retry_delays ag ! a)])"
      by simp
    then have "Process_call a \<in> set (snd (retry_loop ag process xs (Some e) (a + 1)
                 (tr @ [Process_call a, Retried_event (a + 1) (str_exn e),
                        Sleep (retry_delays ag ! a)])))"
      using retry_loop_trace_mono by blast
    with Inl True show ?thesis by (simp add: Let_def)
  next
    case False
    with Inl show ?thesis by (auto simp: Let_def)
  qed
next
  case (Inr r)
  then show ?thesis by (simp add: Let_def)
qed

text \<open>
  Inside the loop over \<open>[a ..< max_retries]\<close>: when attempt \<open>k\<close> is reached, fails with a
  retryable error and is not the last one, attempt \<open>k + 1\<close> is made as well.
\<close>

lemma retry_loop_next:
  assumes "Process_call k \<in> set (snd (retry_loop ag process [a ..< max_retries ag] le atts tr))"
    and "Process_call k \<notin> set tr"
    and "process k = Inl e" and "retryable e"
    and "k + 1 < max_retries ag" and "k < length (retry_delays ag)"
  shows "Process_call (k + 1)
           \<in> set (snd (retry_loop ag process [a ..< max_retries ag] le atts tr))"
  using assms
proof (induction "max_retries ag - a" arbitrary: a le atts tr)
  case 0
  then show ?case by simp
next
  case (Suc d)
  then have lt: "a < max_retries ag" by simp
  then have unfold: "[a ..< max_retries ag] = a # [Suc a ..< max_retries ag]"
    by (simp add: upt_rec)
  show ?case
  proof (cases "k = a")
    case True
    then have rest: "[Suc a ..< max_retries ag] = Suc k # [Suc (Suc k) ..< max_retries ag]"
      using Suc.prems(5) by (simp add: upt_rec)
    have "Process_call (Suc k) \<in> set (snd (retry_loop ag process
            (Suc k # [Suc (Suc k) ..< max_retries ag]) (Some e) (k + 1)
            (tr @ [Process_call k, Retried_event (k + 1) (str_exn e),
                   Sleep (retry_delays ag ! k)])))"
      by (rule retry_loop_head_called)
    then show ?thesis
      using True Suc.prems(3,4,5,6) unfold rest by (simp add: Let_def)
  next
    case False
    show ?thesis
    proof (cases "process a")
      case (Inr r)
      with Suc.prems(1,2) False unfold show ?thesis by (simp add: Let_def)
    next
      case (Inl e')
      show ?thesis
      proof (cases "a + 1 < max_retries ag \<and> retryable e' \<and> a < length (retry_delays ag)")
        case c: False
        with Inl Suc.prems(1,2) False unfold show ?thesis
          by (auto simp: Let_def split: if_splits)
      next
        case c: True
        let ?tr = "tr @ [Process_call a, Retried_event (a + 1) (str_exn e'),
                         Sleep (retry_delays ag ! a)]"
        have d: "d = max_retries ag - Suc a" using Suc.hyps(2) by simp
        have in': "Process_call k \<in> set (snd (retry_loop ag process
                     [Suc a ..< max_retries ag] (Some e') (a + 1) ?tr))"
          using Suc.prems(1) Inl c unfold by (simp add: Let_def)
        have notin': "Process_call k \<notin> set ?tr"
          using Suc.prems(2) False by simp
        have "Process_call (k + 1) \<in> set (snd (retry_loop ag process
                [Suc a ..< max_retries ag] (Some e') (a + 1) ?tr))"
          by (rule Suc.hyps(1) [OF d in' notin' Suc.prems(3,4,5,6)])
        with Inl c unfold show ?thesis by (simp add: Let_def)
      qed
    qed
  qed
qed

lemma run_with_retry_trace:
  "set (snd (retry_loop ag process [0 ..< max_retries ag] None 0 []))
     \<subseteq> set (snd (run_with_retry ag process fallback_process))"
  by (auto simp: run_with_retry_def split: prod.splits loop_exit.splits sum.splits
                 option.splits)

lemma run_with_retry_process_calls:
  "Process_call k \<in> set (snd (run_with_retry ag process fallback_process))
     \<Longrightarrow> Process_call k \<in> set (snd (retry_loop ag process [0 ..< max_retries ag] None 0 []))"
  by (auto simp: run_with_retry_def split: prod.splits loop_exit.splits sum.splits
                 option.splits)

text \<open>
  C6. A stage whose work raises a Permanent error has its work invoked exactly once, and
  the fallback is attempted next, with no retry. An error that is neither Transient nor
  Permanent counts as retryable, and an attempt that fails with such an error while
  attempts remain is followed by another attempt.
\<close>

theorem permanent_short_circuit:
  "(process 0 = Inl (PermanentAgentError m) \<longrightarrow>
      calls (run_with_retry (BaseAgent_init no nm) process fallback_process)
        = [Process_call 0, Fallback_call])
   \<and> (\<not> is_transient e \<and> \<not> is_permanent e \<longrightarrow> retryable e)
   \<and> (Process_call k \<in> set (snd (run_with_retry (BaseAgent_init no nm) process' fallback_process))
        \<and> process' k = Inl e \<and> \<not> is_transient e \<and> \<not> is_permanent e
        \<and> k + 1 < max_retries (BaseAgent_init no nm) \<longrightarrow>
      Process_call (k + 1)
        \<in> set (snd (run_with_retry (BaseAgent_init no nm) process' fallback_process)))"
proof (intro conjI impI)
  assume p: "process 0 = Inl (PermanentAgentError m)"
  show "calls (run_with_retry (BaseAgent_init no nm) process fallback_process)
          = [Process_call 0, Fallback_call]"
    by (cases "fallback_process (Some (PermanentAgentError m))")
       (auto simp: calls_def run_with_retry_def BaseAgent_init_def upt_4 p retryable_def
             split: option.splits)
next
  assume "\<not> is_transient e \<and> \<not> is_permanent e"
  then show "retryable e" by (simp add: retryable_def)
next
  let ?ag = "BaseAgent_init no nm"
  assume a: "Process_call k \<in> set (snd (run_with_retry ?ag process' fallback_process))
        \<and> process' k = Inl e \<and> \<not> is_transient e \<and> \<not> is_permanent e
        \<and> k + 1 < max_retries ?ag"
  then have k: "k + 1 < max_retries ?ag" and pk: "process' k = Inl e"
    and r: "retryable e" by (simp_all add: retryable_def)
  have len: "k < length (retry_delays ?ag)"
    using k by (simp add: BaseAgent_init_def)
  have "Process_call k \<in> set (snd (retry_loop ?ag process' [0 ..< max_retries ?ag] None 0 []))"
    using a run_with_retry_process_calls by blast
  then have "Process_call (k + 1)
      \<in> set (snd (retry_loop ?ag process' [0 ..< max_retries ?ag] None 0 []))"
    using pk r k len by (intro retry_loop_next) simp_all
  then show "Process_call (k + 1) \<in> set (snd (run_with_retry ?ag process' fallback_process))"
    using run_with_retry_trace by blast
qed

theorem permanent_short_circuit_witness:
  "calls (run_with_retry (BaseAgent_init 51 ''Bad'')
            (\<lambda>i. Inl (PermanentAgentError ''Schema violation'') :: exn + string)
            (\<lambda>e. Inr (Some ''# Fallback Minimal'')))
     = [Process_call 0, Fallback_call]
   \<and> retryable (OtherException ''boom'')
   \<and> Process_call 0 \<in> set (snd (run_with_retry (BaseAgent_init 51 ''Bad'')
            (\<lambda>i. Inl (OtherException ''boom'') :: exn + string)
            (\<lambda>e. Inr (Some ''# Fallback Minimal''))))
   \<and> Process_call 1 \<in> set (snd (run_with_retry (BaseAgent_init 51 ''Bad'')
            (\<lambda>i. Inl (OtherException ''boom'') :: exn + string)
            (\<lambda>e. Inr (Some ''# Fallback Minimal''))))"
proof -
  have run0: "Process_call 0 \<in> set (snd (run_with_retry (BaseAgent_init 51 ''Bad'')
            (\<lambda>i. Inl (OtherException ''boom'') :: exn + string)
            (\<lambda>e. Inr (Some ''# Fallback Minimal''))))"
    by (simp add: run_with_retry_def BaseAgent_init_def upt_4 retryable_def)
  have k: "0 + 1 < max_retries (BaseAgent_init 51 ''Bad'')"
    by (simp add: BaseAgent_init_def)
  show ?thesis
    using run0 k
      permanent_short_circuit [of "\<lambda>i. Inl (PermanentAgentError ''Schema violation'')"
        "''Schema violation''" 51 "''Bad''" "\<lambda>e. Inr (Some ''# Fallback Minimal'')"
        "OtherException ''boom''" 0 "\<lambda>i. Inl (OtherException ''boom'')"]
    by simp
qed

section \<open>Properties of the checkpoint store\<close>

lemma find_in: "find P rows = Some c \<Longrightarrow> c \<in> set rows \<and> P c"
  by (induction rows) (auto split: if_splits)

lemma find_append_rows:
  "find P (xs @ ys) = (case find P xs of None \<Rightarrow> find P ys | Some x \<Rightarrow> Some x)"
  by (induction xs) auto

lemma foldr_max_ge: "c \<in> set rows \<Longrightarrow> cp_id c \<le> foldr max (map cp_id rows) 0"
  by (induction rows) auto

lemma next_id_fresh: "c \<in> set rows \<Longrightarrow> cp_id c < next_id rows"
  unfolding next_id_def using foldr_max_ge [of c rows] by simp

lemma save_twice:
  "save_checkpoint dumps sha256 (snd (save_checkpoint dumps sha256 rows r n s t)) r n s t'
     = save_checkpoint dumps sha256 rows r n s t"
  by (cases "find (\<lambda>c. cp_run_id c = r \<and> cp_node_key c = n
                         \<and> cp_state_hash c = sha256 (dumps s)) rows")
     (auto simp: save_checkpoint_def Let_def find_append_rows split: option.splits)

lemma save_row:
  "\<exists>c \<in> set (snd (save_checkpoint dumps sha256 rows r n s t)).
      cp_id c = fst (save_checkpoint dumps sha256 rows r n s t)
      \<and> cp_run_id c = r \<and> cp_node_key c = n \<and> cp_state_hash c = sha256 (dumps s)"
  by (cases "find (\<lambda>c. cp_run_id c = r \<and> cp_node_key c = n
                         \<and> cp_state_hash c = sha256 (dumps s)) rows")
     (auto simp: save_checkpoint_def Let_def dest: find_in)

lemma save_distinct:
  "distinct (map cp_id rows)
     \<Longrightarrow> distinct (map cp_id (snd (save_checkpoint dumps sha256 rows r n s t)))"
  by (cases "find (\<lambda>c. cp_run_id c = r \<and> cp_node_key c = n
                         \<and> cp_state_hash c = sha256 (dumps s)) rows")
     (auto simp: save_checkpoint_def Let_def dest: next_id_fresh)

lemma save_other_id:
  assumes d: "distinct (map cp_id rows)"
    and c: "c \<in> set rows" and h: "cp_state_hash c \<noteq> sha256 (dumps s)"
  shows "fst (save_checkpoint dumps sha256 rows r n s t) \<noteq> cp_id c"
proof (cases "find (\<lambda>c. cp_run_id c = r \<and> cp_node_key c = n
                         \<and> cp_state_hash c = sha256 (dumps s)) rows")
  case None
  then show ?thesis
    using next_id_fresh [OF c] by (simp add: save_checkpoint_def Let_def)
next
  case (Some e)
  then have e: "e \<in> set rows" "cp_state_hash e = sha256 (dumps s)"
    by (auto dest: find_in)
  then have "e \<noteq> c" using h by auto
  then have "cp_id e \<noteq> cp_id c"
    using d e(1) c by (meson distinct_map inj_onD)
  then show ?thesis using Some by (simp add: save_checkpoint_def Let_def)
qed

lemma save_rows_after:
  "snd (save_checkpoint dumps sha256 rows r n s t) =
     (if find (\<lambda>c. cp_run_id c = r \<and> cp_node_key c = n
                    \<and> cp_state_hash c = sha256 (dumps s)) rows = None
      then rows @ [\<lparr>cp_id = fst (save_checkpoint dumps sha256 rows r n s t), cp_run_id = r,
                     cp_node_key = n, cp_state_json = s,
                     cp_state_hash = sha256 (dumps s), cp_tenant_id = t\<rparr>]
      else rows)"
  by (auto simp: save_checkpoint_def Let_def split: option.splits)

text \<open>
  C3, as stated, fails in its last part. The table below is what two saves of the states
  \<open>''A''\<close> and \<open>''B''\<close> for one (run, stage) leave behind (the digests are stand-ins: any
  two different ones do). Saving \<open>''A''\<close> again returns id 1 and writes nothing; saving
  \<open>''B''\<close> next, a state whose serialisation and digest differ from those of \<open>''A''\<close>,
  returns the different id 2 but inserts no row, because a row with that digest exists.
\<close>

theorem checkpoint_new_row_counterexample:
  "id (id ''B'') \<noteq> id (id ''A'')
   \<and> fst (save_checkpoint id id
        [\<lparr>cp_id = 1, cp_run_id = ''run_1'', cp_node_key = ''agent_1'', cp_state_json = ''A'',
          cp_state_hash = ''A'', cp_tenant_id = ''default''\<rparr>,
         \<lparr>cp_id = 2, cp_run_id = ''run_1'', cp_node_key = ''agent_1'', cp_state_json = ''B'',
          cp_state_hash = ''B'', cp_tenant_id = ''default''\<rparr>]
        ''run_1'' ''agent_1'' ''A'' ''default'') = 1
   \<and> save_checkpoint id id
        (snd (save_checkpoint id id
          [\<lparr>cp_id = 1, cp_run_id = ''run_1'', cp_node_key = ''agent_1'', cp_state_json = ''A'',
            cp_state_hash = ''A'', cp_tenant_id = ''default''\<rparr>,
           \<lparr>cp_id = 2, cp_run_id = ''run_1'', cp_node_key = ''agent_1'', cp_state_json = ''B'',
            cp_state_hash = ''B'', cp_tenant_id = ''default''\<rparr>]
          ''run_1'' ''agent_1'' ''A'' ''default''))
        ''run_1'' ''agent_1'' ''B'' ''default''
     = (2, snd (save_checkpoint id id
          [\<lparr>cp_id = 1, cp_run_id = ''run_1'', cp_node_key = ''agent_1'', cp_state_json = ''A'',
            cp_state_hash = ''A'', cp_tenant_id = ''default''\<rparr>,
           \<lparr>cp_id = 2, cp_run_id = ''run_1'', cp_node_key = ''agent_1'', cp_state_json = ''B'',
            cp_state_hash = ''B'', cp_tenant_id = ''default''\<rparr>]
          ''run_1'' ''agent_1'' ''A'' ''default''))"
  by (simp add: save_checkpoint_def Let_def)

text \<open>
  C3, amended. In a table whose ids are distinct (the primary key), for every run id,
  stage key and state: saving the same state a second time returns the same id and
  leaves the table as it is; saving a state whose digest differs returns a different id,
  and inserts a new row (carrying that id, state and digest) exactly when no row with
  that (run, stage, digest) is stored, leaving the table as it is otherwise.
\<close>

theorem checkpoint_idempotent:
  assumes "distinct (map cp_id rows)"
  shows "save_checkpoint dumps sha256 (snd (save_checkpoint dumps sha256 rows r n s t)) r n s t
           = save_checkpoint dumps sha256 rows r n s t
     \<and> (sha256 (dumps s') \<noteq> sha256 (dumps s) \<longrightarrow>
          fst (save_checkpoint dumps sha256
                 (snd (save_checkpoint dumps sha256 rows r n s t)) r n s' t)
            \<noteq> fst (save_checkpoint dumps sha256 rows r n s t)
          \<and> snd (save_checkpoint dumps sha256
                   (snd (save_checkpoint dumps sha256 rows r n s t)) r n s' t)
              = (if find (\<lambda>c. cp_run_id c = r \<and> cp_node_key c = n
                               \<and> cp_state_hash c = sha256 (dumps s'))
                      (snd (save_checkpoint dumps sha256 rows r n s t)) = None
                 then snd (save_checkpoint dumps sha256 rows r n s t)
                      @ [\<lparr>cp_id = fst (save_checkpoint dumps sha256
                                         (snd (save_checkpoint dumps sha256 rows r n s t))
                                         r n s' t),
                          cp_run_id = r, cp_node_key = n, cp_state_json = s',
                          cp_state_hash = sha256 (dumps s'), cp_tenant_id = t\<rparr>]
                 else snd (save_checkpoint dumps sha256 rows r n s t)))"
proof (intro conjI impI)
  show "save_checkpoint dumps sha256 (snd (save_checkpoint dumps sha256 rows r n s t)) r n s t
           = save_checkpoint dumps sha256 rows r n s t"
    by (rule save_twice)
next
  assume h: "sha256 (dumps s') \<noteq> sha256 (dumps s)"
  let ?r1 = "save_checkpoint dumps sha256 rows r n s t"
  obtain c where c: "c \<in> set (snd ?r1)" "cp_id c = fst ?r1"
      "cp_state_hash c = sha256 (dumps s)"
    using save_row [of dumps sha256 rows r n s t] by blast
  have "fst (save_checkpoint dumps sha256 (snd ?r1) r n s' t) \<noteq> cp_id c"
    using save_distinct [OF assms] c(1) c(3) h by (intro save_other_id) auto
  then show "fst (save_checkpoint dumps sha256 (snd ?r1) r n s' t) \<noteq> fst ?r1"
    using c(2) by simp
next
  let ?r1 = "save_checkpoint dumps sha256 rows r n s t"
  show "snd (save_checkpoint dumps sha256 (snd ?r1) r n s' t)
      = (if find (\<lambda>c. cp_run_id c = r \<and> cp_node_key c = n
                       \<and> cp_state_hash c = sha256 (dumps s')) (snd ?r1) = None
         then snd ?r1 @ [\<lparr>cp_id = fst (save_checkpoint dumps sha256 (snd ?r1) r n s' t),
                           cp_run_id = r, cp_node_key = n, cp_state_json = s',
                           cp_state_hash = sha256 (dumps s'), cp_tenant_id = t\<rparr>]
         else snd ?r1)"
    by (rule save_rows_after)
qed

theorem checkpoint_idempotent_witness:
  "distinct (map cp_id ([] :: string checkpoint list))
   \<and> id (id ''B'') \<noteq> id (id ''A'')
   \<and> save_checkpoint id id (snd (save_checkpoint id id [] ''run_1'' ''agent_1'' ''A'' ''default''))
        ''run_1'' ''agent_1'' ''A'' ''default''
       = save_checkpoint id id [] ''run_1'' ''agent_1'' ''A'' ''default''
   \<and> fst (save_checkpoint id id [] ''run_1'' ''agent_1'' ''A'' ''default'') = 1
   \<and> fst (save_checkpoint id id
            (snd (save_checkpoint id id [] ''run_1'' ''agent_1'' ''A'' ''default''))
            ''run_1'' ''agent_1'' ''B'' ''default'') = 2"
proof -
  have d: "distinct (map cp_id ([] :: string checkpoint list))" by simp
  have e: "fst (save_checkpoint id id [] ''run_1'' ''agent_1'' ''A'' ''default'') = 1"
    "fst (save_checkpoint id id
            (snd (save_checkpoint id id [] ''run_1'' ''agent_1'' ''A'' ''default''))
            ''run_1'' ''agent_1'' ''B'' ''default'') = 2"
    by (simp_all add: save_checkpoint_def Let_def next_id_def)
  show ?thesis
    using d e checkpoint_idempotent [OF d, of id id "''run_1''" "''agent_1''" "''A''"
                                      "''default''" "''B''"]
    by simp
qed

section \<open>Properties of the output normalizer\<close>

lemma heading_rules_result:
  assumes "heading_rules h p seen issues repaired = (p', seen', issues', repaired')"
    and "map_of p ''heading'' = Some (JStr h)"
  shows "title_cased p' h issues' repaired'
       \<and> set issues \<subseteq> set issues' \<and> (repaired \<longrightarrow> repaired')"
  using assms
  by (auto simp: heading_rules_def add_poa_def enforce_title_case_def deduplicate_def
                 Let_def update_conv' split: if_splits)

lemma plan_rules_result:
  assumes "plan_rules p issues repaired = (p', issues', repaired')"
  shows "map_of p' ''heading'' = map_of p ''heading''
       \<and> set issues \<subseteq> set issues' \<and> (repaired \<longrightarrow> repaired')"
  using assms
  by (auto simp: plan_rules_def update_conv' split: option.splits json.splits prod.splits if_splits)

lemma problem_step_mono:
  assumes "problem_step p seen issues repaired = Inr (p', seen', issues', repaired')"
  shows "set issues \<subseteq> set issues' \<and> (repaired \<longrightarrow> repaired')"
proof (cases "map_of p ''heading''")
  case None
  with assms show ?thesis
    by (auto simp: problem_step_def split: prod.splits dest: plan_rules_result)
next
  case (Some v)
  show ?thesis
  proof (cases "truthy v")
    case False
    with Some assms show ?thesis
      by (auto simp: problem_step_def split: prod.splits dest: plan_rules_result)
  next
    case True
    then obtain h where v: "v = JStr h"
      using assms Some by (cases v) (auto simp: problem_step_def)
    obtain p1 s1 i1 r1 where hr: "heading_rules h p seen issues repaired = (p1, s1, i1, r1)"
      by (cases "heading_rules h p seen issues repaired") auto
    then have pr: "plan_rules p1 i1 r1 = (p', issues', repaired')"
      using assms Some True v by (auto simp: problem_step_def split: prod.splits)
    show ?thesis
      using heading_rules_result [OF hr] plan_rules_result [OF pr] Some v by auto
  qed
qed

lemma problem_step_title:
  assumes "problem_step p seen issues repaired = Inr (p', seen', issues', repaired')"
    and "map_of p ''heading'' = Some (JStr h)" and "h \<noteq> []"
  shows "title_cased p' h issues' repaired'"
proof -
  obtain p1 s1 i1 r1 where hr: "heading_rules h p seen issues repaired = (p1, s1, i1, r1)"
    by (cases "heading_rules h p seen issues repaired") auto
  then have pr: "plan_rules p1 i1 r1 = (p', issues', repaired')"
    using assms by (auto simp: problem_step_def split: prod.splits)
  show ?thesis
    using heading_rules_result [OF hr assms(2)] plan_rules_result [OF pr] by auto
qed

lemma problems_loop_other:
  "(\<forall>p. x \<noteq> JDict p) \<Longrightarrow>
     problems_loop (x # ps) d seen issues repaired = problems_loop ps (d @ [x]) seen issues repaired"
  by (cases x) auto

lemma problems_loop_shape:
  "problems_loop ps d seen issues repaired = Inr (res, issues', repaired')
     \<Longrightarrow> \<exists>new. res = d @ new \<and> length new = length ps"
proof (induction ps arbitrary: d seen issues repaired)
  case Nil
  then show ?case by simp
next
  case (Cons x ps)
  show ?case
  proof (cases "\<exists>p. x = JDict p")
    case True
    then obtain p where x: "x = JDict p" by blast
    from Cons.prems x obtain p1 s1 i1 r1 where
      rest: "problems_loop ps (d @ [JDict p1]) s1 i1 r1 = Inr (res, issues', repaired')"
      by (auto split: sum.splits)
    from Cons.IH [OF rest] show ?thesis by auto
  next
    case False
    then have "problems_loop ps (d @ [x]) seen issues repaired = Inr (res, issues', repaired')"
      using Cons.prems problems_loop_other by simp
    from Cons.IH [OF this] show ?thesis by auto
  qed
qed

lemma problems_loop_mono:
  "problems_loop ps d seen issues repaired = Inr (res, issues', repaired')
     \<Longrightarrow> set issues \<subseteq> set issues' \<and> (repaired \<longrightarrow> repaired')"
proof (induction ps arbitrary: d seen issues repaired)
  case Nil
  then show ?case by simp
next
  case (Cons x ps)
  show ?case
  proof (cases "\<exists>p. x = JDict p")
    case True
    then obtain p where x: "x = JDict p" by blast
    from Cons.prems x obtain p1 s1 i1 r1 where
      st: "problem_step p seen issues repaired = Inr (p1, s1, i1, r1)" and
      rest: "problems_loop ps (d @ [JDict p1]) s1 i1 r1 = Inr (res, issues', repaired')"
      by (auto split: sum.splits)
    from Cons.IH [OF rest] problem_step_mono [OF st] show ?thesis by auto
  next
    case False
    then have "problems_loop ps (d @ [x]) seen issues repaired = Inr (res, issues', repaired')"
      using Cons.prems problems_loop_other by simp
    from Cons.IH [OF this] show ?thesis by auto
  qed
qed

lemma problems_loop_title:
  assumes "problems_loop ps d seen issues repaired = Inr (res, issues', repaired')"
    and "i < length ps" and "ps ! i = JDict p"
    and "map_of p ''heading'' = Some (JStr h)" and "h \<noteq> []"
  shows "\<exists>p'. res ! (length d + i) = JDict p' \<and> title_cased p' h issues' repaired'"
  using assms
proof (induction ps arbitrary: d seen issues repaired i)
  case Nil
  then show ?case by simp
next
  case (Cons x ps)
  show ?case
  proof (cases "\<exists>q. x = JDict q")
    case True
    then obtain q where x: "x = JDict q" by blast
    from Cons.prems(1) x obtain p1 s1 i1 r1 where
      st: "problem_step q seen issues repaired = Inr (p1, s1, i1, r1)" and
      rest: "problems_loop ps (d @ [JDict p1]) s1 i1 r1 = Inr (res, issues', repaired')"
      by (auto split: sum.splits)
    show ?thesis
    proof (cases i)
      case 0
      then have q: "q = p" using Cons.prems(3) x by simp
      have t: "title_cased p1 h i1 r1"
        using problem_step_title [OF st] Cons.prems(4,5) q by blast
      have m: "set i1 \<subseteq> set issues'" "r1 \<longrightarrow> repaired'"
        using problems_loop_mono [OF rest] by auto
      obtain new where "res = (d @ [JDict p1]) @ new"
        using problems_loop_shape [OF rest] by blast
      then have "res ! length d = JDict p1" by (simp add: nth_append)
      then show ?thesis using t m 0 by auto
    next
      case (Suc j)
      then have j: "j < length ps" "ps ! j = JDict p" using Cons.prems(2,3) by auto
      from Cons.IH [OF rest j Cons.prems(4,5)] show ?thesis using Suc by simp
    qed
  next
    case False
    then have rest: "problems_loop ps (d @ [x]) seen issues repaired = Inr (res, issues', repaired')"
      using Cons.prems(1) problems_loop_other by simp
    from False Cons.prems(3) obtain j where i: "i = Suc j"
      by (cases i) auto
    then have j: "j < length ps" "ps ! j = JDict p" using Cons.prems(2,3) by auto
    from Cons.IH [OF rest j Cons.prems(4,5)] show ?thesis using i by simp
  qed
qed

lemma validate_agent_7_problems:
  assumes "validate_agent_output 7 output = Inr (output', issues, repaired)"
    and "map_of output ''problems'' = Some (JList problems)"
  shows "\<exists>problems'. problems_loop problems [] [] [] False = Inr (problems', issues, repaired)
           \<and> map_of output' ''problems'' = Some (JList problems')"
  using assms
  by (auto simp: validate_agent_output_def validate_agent_7_def update_conv'
           split: sum.splits)



text \<open>
  C7 does not hold of the code. The function guards against a \<open>problems\<close> value that is
  no list, an element that is no dictionary and a plan item that is no string, but not
  against a heading that is no string, nor against a \<open>content_md\<close> that is no string:
  for the orchestrator output \<^verbatim>\<open>{"problems": [{"heading": 5}]}\<close> the call
  \<^verbatim>\<open>heading.upper()\<close> raises \<^verbatim>\<open>AttributeError\<close>, and for the physical-exam output
  \<^verbatim>\<open>{"content_md": None}\<close> the test \<^verbatim>\<open>"Physical Exam" in pe_md\<close> raises
  \<^verbatim>\<open>TypeError\<close>.
\<close>

theorem normalizer_raises_on_malformed:
  "validate_agent_output 7 [(''problems'', JList [JDict [(''heading'', JInt 5)]])]
     = Inl (AttributeError ''object has no attribute upper'')
   \<and> validate_agent_output 4 [(''content_md'', JNone)]
     = Inl (TypeError ''argument is not iterable'')"
  by (simp add: validate_agent_output_def validate_agent_7_def validate_agent_4_def
                problem_step_def)

lemma bullet_loop_compliant:
  "list_all (\<lambda>ln. startswith (strip ln) ''#'' \<or> strip ln = [] \<or> bulleted ln) lns
     \<Longrightarrow> bullet_loop lns new_lines changed = (new_lines @ lns, changed)"
  by (induction lns arbitrary: new_lines) (auto simp: bulleted_def)

lemma validate_4_compliant:
  assumes "spec_compliant_4 output"
  shows "validate_agent_4 output = Inr (output, [], False)"
proof (cases "map_of output ''content_md''")
  case None
  then show ?thesis by (simp add: validate_agent_4_def)
next
  case (Some v)
  then obtain s where v: "v = JStr s"
    and ok: "list_all (\<lambda>ln. startswith (strip ln) ''#'' \<or> strip ln = [] \<or> bulleted ln)
               (splitlines s)"
    using assms by (cases v) (auto simp: spec_compliant_4_def)
  show ?thesis
    using Some v bullet_loop_compliant [OF ok, of "[]" False]
    by (simp add: validate_agent_4_def)
qed

lemma not_space_bracket: "\<not> is_space CHR ''[''" "\<not> is_space CHR ''.''"
  by (simp_all add: is_space_def whitespace_def)

lemma drop_last1: "s \<noteq> [] \<Longrightarrow> drop (length s - 1) s = [last s]"
proof -
  assume "s \<noteq> []"
  then have "s = butlast s @ [last s]" by simp
  then have "drop (length (butlast s)) s = [last s]"
    by (metis append_eq_conv_conj)
  then show ?thesis by simp
qed

lemma strip_ok:
  assumes "startswith s ''[]''" and "endswith s ''.''"
  shows "strip s = s" and "rstrip s = s"
proof -
  obtain r where s: "s = CHR ''['' # r"
    using assms(1) by (cases s) (auto simp: startswith_def)
  have l: "lstrip s = s" by (simp add: s lstrip_def not_space_bracket)
  have ne: "s \<noteq> []" using s by simp
  have "drop (length s - 1) s = ''.''"
    using assms(2) by (simp add: endswith_def)
  then have "last s = CHR ''.''" using drop_last1 [OF ne] by simp
  then have b: "s = butlast s @ [CHR ''.'']"
    using ne by (metis append_butlast_last_id)
  have "rstrip (butlast s @ [CHR ''.'']) = butlast s @ [CHR ''.'']"
    by (simp add: rstrip_def not_space_bracket)
  then show r: "rstrip s = s" using b by simp
  show "strip s = s" by (simp add: strip_def l r)
qed

lemma fix_item_ok:
  assumes "startswith s ''[]''" and "endswith s ''.''"
  shows "fix_item s = (s, False)"
  using assms strip_ok [OF assms] by (simp add: fix_item_def Let_def)

lemma plan_loop_compliant:
  "list_all plan_line_ok plan \<Longrightarrow> snd (plan_loop plan new_plan changed) = changed"
proof (induction plan arbitrary: new_plan)
  case Nil
  then show ?case by simp
next
  case (Cons x plan)
  then obtain s where x: "x = JStr s" and ok: "startswith s ''[]''" "endswith s ''.''"
    by (cases x) auto
  show ?case using Cons x fix_item_ok [OF ok] by simp
qed

lemma plan_rules_compliant:
  assumes "case map_of p ''plan'' of None \<Rightarrow> True
           | Some (JList plan) \<Rightarrow> list_all plan_line_ok plan | Some other \<Rightarrow> False"
  shows "plan_rules p issues repaired = (p, issues, repaired)"
proof (cases "map_of p ''plan''")
  case None
  then show ?thesis by (simp add: plan_rules_def)
next
  case (Some v)
  then obtain plan where v: "v = JList plan" and ok: "list_all plan_line_ok plan"
    using assms by (cases v) auto
  have "snd (plan_loop plan [] False) = False" by (rule plan_loop_compliant [OF ok])
  then obtain new_plan where "plan_loop plan [] False = (new_plan, False)"
    by (cases "plan_loop plan [] False") auto
  then show ?thesis using Some v by (simp add: plan_rules_def)
qed

lemma heading_rules_compliant:
  assumes "contains (upper h) ''POA''" and "title_case h = h" and "lower h \<notin> set seen"
  shows "heading_rules h p seen issues repaired = (p, seen @ [lower h], issues, repaired)"
  using assms
  by (simp add: heading_rules_def add_poa_def enforce_title_case_def deduplicate_def)

lemma contains_nonempty: "contains s ''POA'' \<Longrightarrow> s \<noteq> []"
  by (cases s) auto

lemma problem_step_compliant:
  assumes "spec_compliant_problem (JDict p)" and "heading_of (JDict p) = Some h"
    and "title_case h = h" and "lower h \<notin> set seen"
  shows "problem_step p seen issues repaired = Inr (p, seen @ [lower h], issues, repaired)"
proof -
  have hd: "map_of p ''heading'' = Some (JStr h)"
    using assms(2) by (auto split: option.splits json.splits)
  have poa: "contains (upper h) ''POA''"
    using assms(1,2) by (simp add: spec_compliant_problem_def)
  then have ne: "h \<noteq> []" using contains_nonempty by (auto simp: upper_def)
  have plan: "case map_of p ''plan'' of None \<Rightarrow> True
           | Some (JList plan) \<Rightarrow> list_all plan_line_ok plan | Some other \<Rightarrow> False"
    using assms(1) by (simp add: spec_compliant_problem_def)
  show ?thesis
    using hd ne heading_rules_compliant [OF poa assms(3,4)] plan_rules_compliant [OF plan]
    by (simp add: problem_step_def)
qed

lemma headings_Cons:
  "headings (x # ps) = (case heading_of x of None \<Rightarrow> headings ps | Some h \<Rightarrow> h # headings ps)"
  by (simp add: headings_def List.map_filter_simps split: option.splits)

lemma compliant_has_heading:
  "spec_compliant_problem x \<Longrightarrow> \<exists>p h. x = JDict p \<and> heading_of x = Some h"
  by (cases x) (auto simp: spec_compliant_problem_def split: option.splits)

lemma problems_loop_compliant:
  assumes "list_all spec_compliant_problem ps"
    and "list_all (\<lambda>h. title_case h = h) (headings ps)"
    and "distinct (map lower (headings ps))"
    and "set (map lower (headings ps)) \<inter> set seen = {}"
  shows "problems_loop ps d seen issues repaired = Inr (d @ ps, issues, repaired)"
  using assms
proof (induction ps arbitrary: d seen)
  case Nil
  then show ?case by simp
next
  case (Cons x ps)
  from Cons.prems(1) obtain p h where x: "x = JDict p" and h: "heading_of x = Some h"
    using compliant_has_heading [of x] by auto
  have hs: "headings (x # ps) = h # headings ps" using h by (simp add: headings_Cons)
  have c: "spec_compliant_problem (JDict p)" using Cons.prems(1) x by simp
  have t: "title_case h = h" using Cons.prems(2) hs by simp
  have n: "lower h \<notin> set seen" using Cons.prems(4) hs by auto
  have st: "problem_step p seen issues repaired = Inr (p, seen @ [lower h], issues, repaired)"
    using problem_step_compliant [OF c _ t n] h x by simp
  have rest: "problems_loop ps (d @ [JDict p]) (seen @ [lower h]) issues repaired
                = Inr ((d @ [JDict p]) @ ps, issues, repaired)"
  proof (rule Cons.IH)
    show "list_all spec_compliant_problem ps" using Cons.prems(1) by simp
    show "list_all (\<lambda>h. title_case h = h) (headings ps)" using Cons.prems(2) hs by simp
    show "distinct (map lower (headings ps))" using Cons.prems(3) hs by simp
    show "set (map lower (headings ps)) \<inter> set (seen @ [lower h]) = {}"
      using Cons.prems(3,4) hs by auto
  qed
  show ?case using x st rest by simp
qed

lemma validate_7_compliant:
  assumes "spec_compliant_7 output" and "title_cased_headings output"
  shows "validate_agent_7 output = Inr (output, [], False)"
proof (cases "map_of output ''problems''")
  case None
  then show ?thesis by (simp add: validate_agent_7_def)
next
  case (Some v)
  then obtain ps where v: "v = JList ps"
    and c: "list_all spec_compliant_problem ps" "distinct (map lower (headings ps))"
    using assms(1) by (cases v) (auto simp: spec_compliant_7_def)
  have t: "list_all (\<lambda>h. title_case h = h) (headings ps)"
    using assms(2) Some v by (simp add: title_cased_headings_def)
  have "problems_loop ps [] [] [] False = Inr ([] @ ps, [], False)"
    using c t by (intro problems_loop_compliant) auto
  moreover have "AList.update ''problems'' (JList ps) output = output"
    using Some v by (simp add: update_triv)
  ultimately show ?thesis using Some v by (simp add: validate_agent_7_def)
qed




section \<open>Properties of the run lifecycle\<close>

text \<open>
  C1 does not hold of the code. A failed run has checkpoints with status completed for
  stages 1, 2 and 3. \<^verbatim>\<open>resume_workflow\<close> rebuilds the state with these three entries
  in the Phase-A output map, and \<^verbatim>\<open>stage_a_parallel\<close> invokes only the agents 4, 5
  and 6. But it files their results under the position in the list of pending agents
  (\<^verbatim>\<open>agent_1\<close>, \<^verbatim>\<open>agent_2\<close>, \<^verbatim>\<open>agent_3\<close>) and then replaces the whole output map by
  the new results: when the three agents succeed, the recovered entries are overwritten
  by the outputs of agents 4 to 6 (also in the checkpoints written), and no entry for
  stages 4 to 6 exists; when the three agents fail, the output map ends empty.
\<close>

theorem resume_loses_recovered_outputs:
  "case resume_workflow
          [''run_1'' \<mapsto> \<lparr>patient_id = ''pt_1'', status = FAILED, tenant_id = ''default''\<rparr>]
          [\<lparr>cp_id = 1, cp_run_id = ''run_1'', cp_node_key = ''agent_1'',
            cp_state_json = [(''output'', JDict [(''agent_no'', JInt 1)]),
                             (''status'', JStr ''completed'')],
            cp_state_hash = ''h1'', cp_tenant_id = ''default''\<rparr>,
           \<lparr>cp_id = 2, cp_run_id = ''run_1'', cp_node_key = ''agent_2'',
            cp_state_json = [(''output'', JDict [(''agent_no'', JInt 2)]),
                             (''status'', JStr ''completed'')],
            cp_state_hash = ''h2'', cp_tenant_id = ''default''\<rparr>,
           \<lparr>cp_id = 3, cp_run_id = ''run_1'', cp_node_key = ''agent_3'',
            cp_state_json = [(''output'', JDict [(''agent_no'', JInt 3)]),
                             (''status'', JStr ''completed'')],
            cp_state_hash = ''h3'', cp_tenant_id = ''default''\<rparr>]
          ''run_1'' ''default'' of
     Inl err \<Rightarrow> False
   | Inr (db, Already_completed nodes) \<Rightarrow> False
   | Inr (db, Resume_started state nodes) \<Rightarrow>
       stage_a_outputs state = [(''agent_3'', JDict [(''agent_no'', JInt 3)]),
                                (''agent_2'', JDict [(''agent_no'', JInt 2)]),
                                (''agent_1'', JDict [(''agent_no'', JInt 1)])]
       \<and> completed_nodes state = [''agent_3'', ''agent_2'', ''agent_1'']
       \<and> stage_a_parallel (\<lambda>k s. Inr [(''agent_no'', JInt (int k))]) state
           = Inr (state\<lparr>stage_a_outputs := [(''agent_1'', JDict [(''agent_no'', JInt 4)]),
                                               (''agent_2'', JDict [(''agent_no'', JInt 5)]),
                                               (''agent_3'', JDict [(''agent_no'', JInt 6)])],
                        completed_nodes := [''agent_3'', ''agent_2'', ''agent_1'',
                                            ''agent_1'', ''agent_2'', ''agent_3'']\<rparr>,
                  \<lparr>invoked = [4, 5, 6],
                   saved = [(''agent_1'', checkpoint_state [(''agent_no'', JInt 4)]),
                            (''agent_2'', checkpoint_state [(''agent_no'', JInt 5)]),
                            (''agent_3'', checkpoint_state [(''agent_no'', JInt 6)])]\<rparr>)
       \<and> stage_a_parallel (\<lambda>k s. Inl (TransientAgentError ''down'')) state
           = Inr (state\<lparr>stage_a_outputs := [],
                        errors := [''Agent 1: down'', ''Agent 2: down'', ''Agent 3: down'']\<rparr>,
                  \<lparr>invoked = [4, 5, 6], saved = []\<rparr>)"
  by code_simp

text \<open>
  C2 does not hold of the code. A running run is cancelled out of band; the pipeline then
  ends by raising (an exception that leaves \<^verbatim>\<open>app.ainvoke\<close>). The handler
  \<^verbatim>\<open>except Exception\<close> of \<^verbatim>\<open>run_workflow_async\<close> writes \<^verbatim>\<open>FAILED\<close> without
  re-reading the status, so the final persisted status is failed, not cancelled. Had the
  graph returned a final state instead, the status would have stayed cancelled.
\<close>

theorem cancelled_overwritten_when_pipeline_raises:
  "case cancel_workflow
          [''run_1'' \<mapsto> \<lparr>patient_id = ''pt_1'', status = RUNNING, tenant_id = ''default''\<rparr>]
          ''run_1'' ''default'' of
     Inl err \<Rightarrow> False
   | Inr db \<Rightarrow>
       get_run_status db ''run_1'' = Some CANCELLED
       \<and> get_run_status
             (run_workflow_async db (Ainvoke_raised (OtherException ''connection lost''))
                ''run_1'') ''run_1''
           = Some FAILED
       \<and> get_run_status
             (run_workflow_async db
                (Final_state \<lparr>run_id = ''run_1'', ws_patient_id = ''pt_1'', raw_text_refs = [],
                               stage_a_outputs = [], stage_b_outputs = [],
                               stage_c_outputs = [], errors = [], completed_nodes = []\<rparr>)
                ''run_1'') ''run_1''
           = Some CANCELLED"
  by (simp add: cancel_workflow_def update_run_status_def get_run_status_def
                run_workflow_async_def)


lemma resume_workflow_status:
  assumes "db rid = Some w" and "tenant_id w = tid"
    and "resume_workflow db rows rid tid = Inr (db1, res)"
  shows "status w \<in> {FAILED, RUNNING, PENDING}
       \<and> (case res of
             Already_completed nodes \<Rightarrow> db1 = db
           | Resume_started state nodes \<Rightarrow> get_run_status db1 rid = Some RUNNING)"
  using assms
  by (auto simp: resume_workflow_def update_run_status_def get_run_status_def
           split: if_splits sum.splits prod.splits)



section \<open>Properties of the safety rule engine\<close>

lemma rules_loop_all_return:
  "(\<forall>rule \<in> set rules. \<exists>is. applies rule state = Inr is) \<Longrightarrow>
     rules_loop rules state source acc
       = Inr (acc @ concat (map (\<lambda>rule. map (tag source) (returned_issues (applies rule state)))
                              rules))"
proof (induction rules arbitrary: acc)
  case Nil
  then show ?case by simp
next
  case (Cons rule rules)
  then obtain "is" where r: "applies rule state = Inr is" by auto
  have "rules_loop rules state source (acc @ map (tag source) is)
          = Inr ((acc @ map (tag source) is)
                 @ concat (map (\<lambda>rule. map (tag source) (returned_issues (applies rule state)))
                             rules))"
    using Cons.prems by (intro Cons.IH) simp
  then show ?case using r by simp
qed

lemma rules_loop_returned:
  "rules_loop rules state source acc = Inr issues \<Longrightarrow>
     (\<forall>rule \<in> set rules. \<exists>is. applies rule state = Inr is)"
proof (induction rules arbitrary: acc)
  case Nil
  then show ?case by simp
next
  case (Cons rule rules)
  then show ?case by (cases "applies rule state") auto
qed

lemma registry_rules:
  "map snd (registry ops)
     = [VTEProphylaxisRule, RenalDosingRule ops, NSAIDContraindicationRule, DrugInteractionRule]"
  by (simp add: registry_def register_def VTEProphylaxisRule_def RenalDosingRule_def
                NSAIDContraindicationRule_def DrugInteractionRule_def)

lemma vte_untagged:
  "applies VTEProphylaxisRule state = Inr is \<Longrightarrow> i \<in> set is \<Longrightarrow> node_key i = []"
  unfolding VTEProphylaxisRule_def Let_def
  by (simp del: list_ex_Cons_iff list_ex_Nil_iff list_ex_append split: if_splits) auto

lemma renal_untagged:
  "applies (RenalDosingRule ops) state = Inr is \<Longrightarrow> i \<in> set is \<Longrightarrow> node_key i = []"
  unfolding RenalDosingRule_def
  by (simp del: list_ex_Cons_iff list_ex_Nil_iff list_ex_append split: option.splits if_splits sum.splits) auto

lemma nsaid_untagged:
  "applies NSAIDContraindicationRule state = Inr is \<Longrightarrow> i \<in> set is \<Longrightarrow> node_key i = []"
  unfolding NSAIDContraindicationRule_def Let_def
  by (simp del: list_ex_Cons_iff list_ex_Nil_iff list_ex_append split: if_splits) auto

lemma interaction_untagged:
  "applies DrugInteractionRule state = Inr is \<Longrightarrow> i \<in> set is \<Longrightarrow> node_key i = []"
  unfolding DrugInteractionRule_def Let_def
  by (simp del: list_ex_Cons_iff list_ex_Nil_iff list_ex_append split: if_splits) auto

lemma default_rules_untagged:
  assumes "rule \<in> set (map snd (registry ops))" and "applies rule state = Inr is"
    and "i \<in> set is"
  shows "node_key i = []"
proof -
  consider "rule = VTEProphylaxisRule" | "rule = RenalDosingRule ops"
    | "rule = NSAIDContraindicationRule" | "rule = DrugInteractionRule"
    using assms(1) by (auto simp: registry_rules)
  then show ?thesis
    using assms(2,3) vte_untagged renal_untagged nsaid_untagged interaction_untagged
    by cases blast+
qed

lemma tag_default:
  assumes "rule \<in> set (map snd (registry ops))"
  shows "map (tag source) (returned_issues (applies rule state))
           = map (\<lambda>i. i\<lparr>node_key := source\<rparr>) (returned_issues (applies rule state))"
proof (cases "applies rule state")
  case (Inl e)
  then show ?thesis by simp
next
  case (Inr "is")
  then have "\<forall>i \<in> set is. node_key i = []"
    using default_rules_untagged [OF assms] by blast
  then show ?thesis using Inr by (simp add: tag_def)
qed



end
